theory Spec2Isabelle
  imports Complex_Main
begin

section \<open>Python values used by both modules\<close>

text \<open>
  The two modules are Python 2 code (\<^verbatim>\<open>print f\<close>, \<^verbatim>\<open>len(map(...))\<close>): strings are byte
  strings, \<^verbatim>\<open>map\<close> returns a list and tuples compare lexicographically. Exceptions are
  values of \<open>py_error\<close>; a function that can raise returns \<open>py_error + 'a\<close>.
\<close>

datatype py_error =
    IndexError
  | ValueError string
  | TypeError
  | ZeroDivisionError
  | NotModelled

text \<open>\<open>NotModelled\<close> is not an exception of Python: it marks an input on which the model
  does not say what a library function returns.\<close>

text \<open>The six characters that \<^verbatim>\<open>str.strip()\<close> and \<^verbatim>\<open>str.split()\<close> treat as whitespace.\<close>

definition py_isspace :: "char \<Rightarrow> bool" where
  "py_isspace c = (c = CHR '' '' \<or> c = CHR 0x09 \<or> c = CHR 0x0A \<or> c = CHR 0x0B
                   \<or> c = CHR 0x0C \<or> c = CHR 0x0D)"

definition py_strip :: "string \<Rightarrow> string" where
  "py_strip s = rev (dropWhile py_isspace (rev (dropWhile py_isspace s)))"

text \<open>\<^verbatim>\<open>s.split()\<close> with no separator: fields are the maximal runs of non-blank characters.\<close>

fun split_ws :: "string \<Rightarrow> string \<Rightarrow> string list" where
  "split_ws cur [] = (if cur = [] then [] else [rev cur])"
| "split_ws cur (c # cs) =
     (if py_isspace c
      then (if cur = [] then split_ws [] cs else rev cur # split_ws [] cs)
      else split_ws (c # cur) cs)"

text \<open>
  \<^verbatim>\<open>s.split(sep)\<close> with a non-empty separator string: cut at every occurrence of \<open>sep\<close>,
  scanning from the left; \<open>skip\<close> counts the characters of a separator still to be passed
  over, \<open>cur\<close> is the field read so far (reversed).
\<close>

fun split_sep :: "string \<Rightarrow> nat \<Rightarrow> string \<Rightarrow> string \<Rightarrow> string list" where
  "split_sep sep skip cur [] = [rev cur]"
| "split_sep sep (Suc k) cur (c # cs) = split_sep sep k cur cs"
| "split_sep sep 0 cur (c # cs) =
     (if take (length sep) (c # cs) = sep
      then rev cur # split_sep sep (length sep - 1) [] cs
      else split_sep sep 0 (c # cur) cs)"

text \<open>\<^verbatim>\<open>line.split(delimiter)\<close>: an empty separator raises \<^verbatim>\<open>ValueError\<close>.\<close>

definition py_split :: "string option \<Rightarrow> string \<Rightarrow> py_error + string list" where
  "py_split delimiter line =
     (case delimiter of
        None \<Rightarrow> Inr (split_ws [] line)
      | Some sep \<Rightarrow>
          if sep = [] then Inl (ValueError ''empty separator'')
          else Inr (split_sep sep 0 [] line))"

text \<open>\<^verbatim>\<open>words[i]\<close>: a negative index counts from the end, an index out of range raises.\<close>

definition py_getitem :: "'a list \<Rightarrow> int \<Rightarrow> py_error + 'a" where
  "py_getitem xs i =
     (let n = int (length xs); j = (if i < 0 then i + n else i)
      in if j < 0 \<or> n \<le> j then Inl IndexError else Inr (xs ! nat j))"

text \<open>\<^verbatim>\<open>[words[i] for i in usecols]\<close>: the first failing index raises.\<close>

fun select_words :: "string list \<Rightarrow> int list \<Rightarrow> py_error + string list" where
  "select_words words [] = Inr []"
| "select_words words (i # is) =
     (case py_getitem words i of
        Inl e \<Rightarrow> Inl e
      | Inr w \<Rightarrow> (case select_words words is of Inl e \<Rightarrow> Inl e | Inr ws \<Rightarrow> Inr (w # ws)))"

text \<open>\<^verbatim>\<open>min(xs)\<close> and \<^verbatim>\<open>max(xs)\<close> of a list: \<^verbatim>\<open>ValueError\<close> on the empty list.\<close>

definition py_min :: "int list \<Rightarrow> py_error + int" where
  "py_min xs = (case xs of [] \<Rightarrow> Inl (ValueError ''min() arg is an empty sequence'')
                | x # r \<Rightarrow> Inr (fold min r x))"

definition py_max :: "int list \<Rightarrow> py_error + int" where
  "py_max xs = (case xs of [] \<Rightarrow> Inl (ValueError ''max() arg is an empty sequence'')
                | x # r \<Rightarrow> Inr (fold max r x))"

text \<open>Python 2 compares tuples lexicographically: \<^verbatim>\<open>(a, b) < (c, d)\<close>.\<close>

definition tuple_lt :: "int \<times> int \<Rightarrow> int \<times> int \<Rightarrow> bool" where
  "tuple_lt p q = (fst p < fst q \<or> (fst p = fst q \<and> snd p < snd q))"

section \<open>load\_data: the block scanner and the loader\<close>

text \<open>
  \<^verbatim>\<open>load_data(filename, minrows=10, **kwargs)\<close> of \<^verbatim>\<open>utils/load_data.py\<close>. The file is its
  content, a byte string; \<^verbatim>\<open>delimiter\<close> and \<^verbatim>\<open>usecols\<close> are the two keyword arguments the
  function reads. \<^verbatim>\<open>_resolveStringColumns\<close> is not part of the module, so a \<^verbatim>\<open>usecols\<close> that
  is given is the list of integers it returns. The builtin \<^verbatim>\<open>float\<close> is the parameter \<open>float_ok\<close>, true on
  the strings it converts (its grammar changed between Python versions); nothing proved
  below depends on which strings those are.
\<close>

text \<open>Lines 38-45: the threshold \<^verbatim>\<open>mincv\<close>.\<close>

definition mincv_of :: "int list option \<Rightarrow> py_error + (int \<times> int)" where
  "mincv_of usecols =
     (case usecols of
        None \<Rightarrow> Inr (1, 1)
      | Some uc \<Rightarrow>
          (case py_min uc of
             Inl e \<Rightarrow> Inl e
           | Inr lo \<Rightarrow>
               (case py_max uc of
                  Inl e \<Rightarrow> Inl e
                | Inr hi \<Rightarrow> Inr (max (- lo) (hi + 1), int (length (remdups uc))))))"

text \<open>Lines 52-53: \<^verbatim>\<open>while words and not words[-1].strip(): words.pop(-1)\<close>.\<close>

fun pop_blank :: "string list \<Rightarrow> string list" where
  "pop_blank [] = []"
| "pop_blank (w # ws) = (if py_strip w = [] then pop_blank ws else w # ws)"

definition drop_trailing_blank :: "string list \<Rightarrow> string list" where
  "drop_trailing_blank words = rev (pop_blank (rev words))"

text \<open>\<^verbatim>\<open>len(map(float, ws))\<close>: the length, or \<^verbatim>\<open>ValueError\<close> when a conversion fails.\<close>

definition len_map_float :: "(string \<Rightarrow> bool) \<Rightarrow> string list \<Rightarrow> py_error + int" where
  "len_map_float float_ok ws =
     (if list_all float_ok ws then Inr (int (length ws))
      else Inl (ValueError ''could not convert string to float''))"

text \<open>Lines 50-58: the body of the \<^verbatim>\<open>try\<close>.\<close>

definition count_body ::
  "(string \<Rightarrow> bool) \<Rightarrow> string option \<Rightarrow> int list option \<Rightarrow> string \<Rightarrow> py_error + (int \<times> int)" where
  "count_body float_ok delimiter usecols line =
     (case py_split delimiter line of
        Inl e \<Rightarrow> Inl e
      | Inr words0 \<Rightarrow>
          (let words = drop_trailing_blank words0; nc = int (length words)
           in case usecols of
                Some uc \<Rightarrow>
                  (case select_words words uc of
                     Inl e \<Rightarrow> Inl e
                   | Inr sel \<Rightarrow>
                       (case len_map_float float_ok sel of
                          Inl e \<Rightarrow> Inl e | Inr nv \<Rightarrow> Inr (nc, nv)))
              | None \<Rightarrow>
                  (case len_map_float float_ok words of
                     Inl e \<Rightarrow> Inl e | Inr nv \<Rightarrow> Inr (nc, nv))))"

text \<open>Lines 48-61: \<^verbatim>\<open>except (IndexError, ValueError): nc = nv = 0\<close>; any other exception
  would leave the function.\<close>

definition countcolumnsvalues ::
  "(string \<Rightarrow> bool) \<Rightarrow> string option \<Rightarrow> int list option \<Rightarrow> string \<Rightarrow> py_error + (int \<times> int)" where
  "countcolumnsvalues float_ok delimiter usecols line =
     (case count_body float_ok delimiter usecols line of
        Inr ncv \<Rightarrow> Inr ncv
      | Inl IndexError \<Rightarrow> Inr (0, 0)
      | Inl (ValueError m) \<Rightarrow> Inr (0, 0)
      | Inl e \<Rightarrow> Inl e)"

text \<open>\<^verbatim>\<open>for line in fid\<close> on a file opened \<^verbatim>\<open>'rb'\<close>: the lines end after each newline byte,
  which they keep; a last line without newline is a line too.\<close>

fun file_lines_acc :: "string \<Rightarrow> string \<Rightarrow> string list" where
  "file_lines_acc cur [] = (if cur = [] then [] else [rev cur])"
| "file_lines_acc cur (c # cs) =
     (if c = CHR 0x0A then rev (c # cur) # file_lines_acc [] cs
      else file_lines_acc (c # cur) cs)"

definition file_lines :: "string \<Rightarrow> string list" where
  "file_lines content = file_lines_acc [] content"

text \<open>Lines 65-66: the variables of the search loop.\<close>

record scan_state =
  start :: "nat option"
  ncvblock :: "(int \<times> int) option"
  fpos :: nat
  nrows :: int

definition scan_init :: scan_state where
  "scan_init = \<lparr>start = None, ncvblock = None, fpos = 0, nrows = 0\<rparr>"

text \<open>Lines 67-82: the loop; \<^verbatim>\<open>break\<close> returns the state, \<^verbatim>\<open>continue\<close> goes to the next
  line.\<close>

fun scan_loop ::
  "(string \<Rightarrow> py_error + (int \<times> int)) \<Rightarrow> int \<times> int \<Rightarrow> int \<Rightarrow> scan_state \<Rightarrow> string list
     \<Rightarrow> py_error + scan_state" where
  "scan_loop classify mincv minrows st [] = Inr st"
| "scan_loop classify mincv minrows st (line # rest) =
     (let st1 = st\<lparr>fpos := fpos st + length line\<rparr>
      in case classify line of
           Inl e \<Rightarrow> Inl e
         | Inr ncv \<Rightarrow>
             if tuple_lt ncv mincv then scan_loop classify mincv minrows (st1\<lparr>start := None\<rparr>) rest
             else
               (let st2 = (if start st1 = None \<or> Some ncv \<noteq> ncvblock st1
                           then st1\<lparr>ncvblock := Some ncv, nrows := 0,
                                    start := Some (fpos st1 - length line)\<rparr>
                           else st1);
                    st3 = st2\<lparr>nrows := nrows st2 + 1\<rparr>
                in if nrows st3 \<ge> minrows then Inr st3
                   else scan_loop classify mincv minrows st3 rest))"

text \<open>
  The keyword \<^verbatim>\<open>usecols\<close> in \<^verbatim>\<open>kwargs\<close>: absent, passed as \<^verbatim>\<open>None\<close>, or passed as columns.
  Line 36, \<^verbatim>\<open>usecols = kwargs.get('usecols')\<close>, is \<^verbatim>\<open>None\<close> in the first two cases.
\<close>

datatype usecols_kw = KwAbsent | KwNone | KwCols "int list"

definition kwargs_get_usecols :: "usecols_kw \<Rightarrow> int list option" where
  "kwargs_get_usecols kw = (case kw of KwCols uc \<Rightarrow> Some uc | KwNone \<Rightarrow> None | KwAbsent \<Rightarrow> None)"

text \<open>
  What \<^verbatim>\<open>load_data\<close> returns: \<^verbatim>\<open>array([], dtype=float)\<close>, or the value of \<^verbatim>\<open>loadtxt\<close> (numpy)
  called on the file positioned at \<open>seek\<close> with the keyword argument \<^verbatim>\<open>usecols\<close> equal to
  \<open>cols\<close> (\<open>None\<close> is \<^verbatim>\<open>usecols=None\<close>).
\<close>

datatype load_result = EmptyArray | LoadTxt (seek: nat) (cols: "int list option")

text \<open>\<^verbatim>\<open>range(n)\<close> of Python 2.\<close>

definition py_range :: "int \<Rightarrow> int list" where
  "py_range n = map int [0..<nat n]"

text \<open>
  Lines 34-93. Line 43 stores the resolved columns in \<^verbatim>\<open>kwargs\<close>; line 91,
  \<^verbatim>\<open>kwargs.setdefault('usecols', range(ncvblock[0]))\<close>, sets the keyword only when it is
  absent, so a \<^verbatim>\<open>usecols=None\<close> that was passed stays \<^verbatim>\<open>None\<close>.
\<close>

definition load_data ::
  "(string \<Rightarrow> bool) \<Rightarrow> string \<Rightarrow> int \<Rightarrow> string option \<Rightarrow> usecols_kw \<Rightarrow> py_error + load_result" where
  "load_data float_ok content minrows delimiter kw =
     (let usecols = kwargs_get_usecols kw
      in case mincv_of usecols of
           Inl e \<Rightarrow> Inl e
         | Inr mincv \<Rightarrow>
             (case scan_loop (countcolumnsvalues float_ok delimiter usecols) mincv minrows
                     scan_init (file_lines content) of
                Inl e \<Rightarrow> Inl e
              | Inr st \<Rightarrow>
                  (case start st of
                     None \<Rightarrow> Inr EmptyArray
                   | Some s \<Rightarrow>
                       (case kw of
                          KwCols uc \<Rightarrow> Inr (LoadTxt s (Some uc))
                        | KwNone \<Rightarrow> Inr (LoadTxt s None)
                        | KwAbsent \<Rightarrow>
                            (case ncvblock st of
                               None \<Rightarrow> Inl TypeError
                             | Some ncv \<Rightarrow> Inr (LoadTxt s (Some (py_range (fst ncv)))))))))"

text \<open>
  An instance of \<open>float_ok\<close> for running the model on concrete files: the decimal literals
  without exponent (\<^verbatim>\<open>12\<close>, \<^verbatim>\<open>-1.5\<close>, \<^verbatim>\<open>.5\<close>, \<^verbatim>\<open>3.\<close>), which every version of \<^verbatim>\<open>float\<close>
  converts, surrounded by optional blanks.
\<close>

definition is_digit :: "char \<Rightarrow> bool" where
  "is_digit c = (c \<in> set ''0123456789'')"

definition decimal_literal :: "string \<Rightarrow> bool" where
  "decimal_literal s =
     (let t = py_strip s;
          u = (case t of [] \<Rightarrow> [] | c # r \<Rightarrow> if c = CHR ''+'' \<or> c = CHR ''-'' then r else t);
          ip = takeWhile is_digit u;
          rest = dropWhile is_digit u
      in case rest of
           [] \<Rightarrow> ip \<noteq> []
         | c # fp \<Rightarrow> c = CHR ''.'' \<and> list_all is_digit fp \<and> (ip \<noteq> [] \<or> fp \<noteq> []))"

section \<open>loaddata: the column identifier parser\<close>

text \<open>
  \<^verbatim>\<open>_parsecolumnid(sx)\<close> of \<^verbatim>\<open>utils-long/loaddata.py\<close>. An item of a column list is an integer
  or a string, a column name, \<^verbatim>\<open>'.'\<close> or a token still to be parsed; the argument is \<^verbatim>\<open>None\<close>,
  a string, an integer or a list of items.
\<close>

datatype colid = Idx int | Name string

datatype colspec = SpecNone | SpecStr string | SpecInt int | SpecList "colid list"

text \<open>\<^verbatim>\<open>str.isalpha\<close> on one byte, in the C locale.\<close>

definition is_alpha :: "char \<Rightarrow> bool" where
  "is_alpha c = (c \<in> set ''abcdefghijklmnopqrstuvwxyzABCDEFGHIJKLMNOPQRSTUVWXYZ'')"

text \<open>An optional sign followed by one digit or more.\<close>

definition signed_digits :: "string \<Rightarrow> bool" where
  "signed_digits w =
     (let body = (case w of [] \<Rightarrow> []
                  | c # r \<Rightarrow> if c = CHR ''+'' \<or> c = CHR ''-'' then r else w)
      in body \<noteq> [] \<and> list_all is_digit body)"

text \<open>
  \<^verbatim>\<open>mxint.match(w)\<close> for \<^verbatim>\<open>mxint = re.compile(r'^[+-]?\d+$')\<close>: without the MULTILINE flag,
  \<^verbatim>\<open>$\<close> matches at the end of the string and also just before a newline that ends it.
\<close>

definition mxint_match :: "string \<Rightarrow> bool" where
  "mxint_match w =
     (signed_digits w \<or> (w \<noteq> [] \<and> last w = CHR 0x0A \<and> signed_digits (butlast w)))"

text \<open>\<^verbatim>\<open>int(w)\<close> on a string that \<^verbatim>\<open>mxint\<close> matches: blanks around the numeral are ignored.\<close>

definition digit_val :: "char \<Rightarrow> int" where
  "digit_val c = int (of_char c) - 48"

definition py_int :: "string \<Rightarrow> int" where
  "py_int w =
     (case py_strip w of
        [] \<Rightarrow> 0
      | c # r \<Rightarrow>
          if c = CHR ''-'' then - foldl (\<lambda>a d. 10 * a + digit_val d) 0 r
          else if c = CHR ''+'' then foldl (\<lambda>a d. 10 * a + digit_val d) 0 r
          else foldl (\<lambda>a d. 10 * a + digit_val d) 0 (c # r))"

text \<open>
  \<^verbatim>\<open>repr(w)\<close> of a Python 2 byte string: single quotes, unless the string holds a single
  quote and no double quote; the quote and the backslash are escaped, tab, newline and
  carriage return are written \<^verbatim>\<open>\t\<close>, \<^verbatim>\<open>\n\<close>, \<^verbatim>\<open>\r\<close>, every other byte outside the printable
  ASCII range as \<^verbatim>\<open>\xhh\<close>.
\<close>

definition hex_digit :: "nat \<Rightarrow> char" where
  "hex_digit n = ''0123456789abcdef'' ! (n mod 16)"

definition repr_char :: "char \<Rightarrow> char \<Rightarrow> string" where
  "repr_char quote c =
     (if c = quote \<or> c = CHR 0x5C then [CHR 0x5C, c]
      else if c = CHR 0x09 then [CHR 0x5C, CHR ''t'']
      else if c = CHR 0x0A then [CHR 0x5C, CHR ''n'']
      else if c = CHR 0x0D then [CHR 0x5C, CHR ''r'']
      else if (of_char c :: nat) < 32 \<or> 127 \<le> (of_char c :: nat)
           then [CHR 0x5C, CHR ''x'', hex_digit (of_char c div 16), hex_digit (of_char c)]
      else [c])"

definition py_repr :: "string \<Rightarrow> string" where
  "py_repr w =
     (let quote = (if CHR 0x27 \<in> set w \<and> CHR 0x22 \<notin> set w then CHR 0x22 else CHR 0x27)
      in quote # concat (map (repr_char quote) w) @ [quote])"

text \<open>Line 221 and its uses: \<^verbatim>\<open>emsg0 % repr(w)\<close>.\<close>

definition emsg0 :: "string \<Rightarrow> string" where
  "emsg0 w = ''invalid column identifier '' @ py_repr w"

text \<open>
  \<^verbatim>\<open>numpy.arange(start, stop, step)\<close> on integers: \<open>\<lceil>(stop - start) / step\<rceil>\<close> values (none when
  that is negative), the \<open>k\<close>-th being \<open>start + k * step\<close>. A zero step raises (which
  exception depends on the version of numpy). numpy computes the values in 64-bit integers
  and their number in 64-bit floats, and turns to floats when an argument does not fit 64
  bits. The model covers the arguments that fit a signed 32-bit integer, on which all of
  that arithmetic is exact, and says nothing beyond them.
\<close>

definition fits_int32 :: "int \<Rightarrow> bool" where
  "fits_int32 v = (- 2147483648 \<le> v \<and> v < 2147483648)"

definition arange :: "int \<Rightarrow> int \<Rightarrow> int \<Rightarrow> py_error + int list" where
  "arange a b c =
     (if \<not> (fits_int32 a \<and> fits_int32 b \<and> fits_int32 c) then Inl NotModelled
      else if c = 0 then Inl ZeroDivisionError
      else Inr (map (\<lambda>k. a + int k * c) [0..<nat (- ((a - b) div c))]))"

text \<open>
  \<^verbatim>\<open>numpy.r_[slice(start, stop, step)].tolist()\<close> for a slice with a stop: \<^verbatim>\<open>r_\<close> replaces a
  missing start by 0 and a missing step by 1 and calls \<^verbatim>\<open>arange\<close>.
\<close>

definition r_slice :: "int option \<Rightarrow> int \<Rightarrow> int option \<Rightarrow> py_error + int list" where
  "r_slice sta sto ste =
     arange (case sta of None \<Rightarrow> 0 | Some a \<Rightarrow> a) sto (case ste of None \<Rightarrow> 1 | Some c \<Rightarrow> c)"

text \<open>\<^verbatim>\<open>w.count(':')\<close> and \<^verbatim>\<open>w.split(':')\<close>.\<close>

definition count_char :: "char \<Rightarrow> string \<Rightarrow> nat" where
  "count_char c w = length (filter (\<lambda>x. x = c) w)"

definition split_char :: "char \<Rightarrow> string \<Rightarrow> string list" where
  "split_char c w = split_sep [c] 0 [] w"

text \<open>Lines 232-243: a token with one or two colons.\<close>

definition parse_range :: "string \<Rightarrow> py_error + colid list" where
  "parse_range w =
     (let a0 = map py_strip (split_char CHR '':'' w)
      in if \<not> list_all (\<lambda>x. x = [] \<or> mxint_match x) a0 then Inl (ValueError (emsg0 w))
         else
           (let a1 = map (\<lambda>x. if x \<noteq> [] then Some (py_int x) else None) a0
            in case a1 @ replicate (3 - length a1) None of
                 [sta, sto, ste] \<Rightarrow>
                   (case sto of
                      None \<Rightarrow> Inl (ValueError (emsg0 w))
                    | Some b \<Rightarrow>
                        (case r_slice sta b ste of
                           Inl e \<Rightarrow> Inl e
                         | Inr xs \<Rightarrow> Inr (map Idx xs)))
               | _ \<Rightarrow> Inl TypeError))"

text \<open>Lines 223-243: the body of the loop, returning what the item adds to \<^verbatim>\<open>rv\<close>.\<close>

definition parse_item :: "colid \<Rightarrow> py_error + colid list" where
  "parse_item item =
     (case item of
        Idx i \<Rightarrow> Inr [Idx i]
      | Name w \<Rightarrow>
          if list_all is_alpha (take 1 w) \<and> w \<noteq> [] \<or> take 1 w = ''@'' \<or> w = ''.''
          then Inr [Name w]
          else if mxint_match w then Inr [Idx (py_int w)]
          else if 1 \<le> count_char CHR '':'' w \<and> count_char CHR '':'' w \<le> 2
          then parse_range w
          else Inl (ValueError (emsg0 w)))"

text \<open>Lines 222-244: the loop; the first item that raises ends it.\<close>

fun parse_items :: "colid list \<Rightarrow> py_error + colid list" where
  "parse_items [] = Inr []"
| "parse_items (item # rest) =
     (case parse_item item of
        Inl e \<Rightarrow> Inl e
      | Inr ids \<Rightarrow> (case parse_items rest of Inl e \<Rightarrow> Inl e | Inr rv \<Rightarrow> Inr (ids @ rv)))"

text \<open>
  Lines 214-217: the items the loop runs over. A string is cut at the commas, the pieces are
  stripped and the empty ones dropped (\<^verbatim>\<open>filter(None, ...)\<close>); an integer is a list of one
  item.
\<close>

definition spec_items :: "colspec \<Rightarrow> colid list option" where
  "spec_items sx =
     (case sx of
        SpecStr s \<Rightarrow> Some (map Name (filter (\<lambda>w. w \<noteq> []) (map py_strip (split_char CHR '','' s))))
      | SpecInt i \<Rightarrow> Some [Idx i]
      | SpecList l \<Rightarrow> Some l
      | SpecNone \<Rightarrow> None)"

text \<open>Lines 214-244: \<^verbatim>\<open>None\<close> when there is nothing to parse, else the result of the loop.\<close>

definition parsecolumnid :: "colspec \<Rightarrow> py_error + colid list option" where
  "parsecolumnid sx =
     (case spec_items sx of
        None \<Rightarrow> Inr None
      | Some l \<Rightarrow>
          if l = [] then Inr None
          else (case parse_items l of Inl e \<Rightarrow> Inl e | Inr rv \<Rightarrow> Inr (Some rv)))"

section \<open>loaddata: loading the x and y columns\<close>

text \<open>
  A numpy array of floats of dimension 0, 1 or 2; a two-dimensional array is the list of
  its rows, which have one length. What the code reads of an array: \<^verbatim>\<open>d.size\<close>, \<^verbatim>\<open>d.ndim\<close>,
  \<^verbatim>\<open>d.shape[0]\<close>.
\<close>

datatype ndarray = Arr0 real | Arr1 "real list" | Arr2 "real list list"

definition size_of :: "ndarray \<Rightarrow> nat" where
  "size_of d = (case d of Arr0 v \<Rightarrow> 1 | Arr1 xs \<Rightarrow> length xs | Arr2 rows \<Rightarrow> length (concat rows))"

definition ndim :: "ndarray \<Rightarrow> nat" where
  "ndim d = (case d of Arr0 v \<Rightarrow> 0 | Arr1 xs \<Rightarrow> 1 | Arr2 rows \<Rightarrow> 2)"

definition shape0 :: "ndarray \<Rightarrow> py_error + nat" where
  "shape0 d = (case d of Arr0 v \<Rightarrow> Inl IndexError | Arr1 xs \<Rightarrow> Inr (length xs)
               | Arr2 rows \<Rightarrow> Inr (length rows))"

text \<open>\<^verbatim>\<open>d.reshape((nrows, -1))\<close> with \<^verbatim>\<open>nrows = d.shape[0]\<close>, on an array that is not empty: the
  rows of the array, a vector becoming one column.\<close>

definition reshape_rows :: "ndarray \<Rightarrow> real list list" where
  "reshape_rows d = (case d of Arr0 v \<Rightarrow> [[v]] | Arr1 xs \<Rightarrow> map (\<lambda>x. [x]) xs | Arr2 rows \<Rightarrow> rows)"

text \<open>
  Line 155, \<^verbatim>\<open>d[:,dotindices] = numpy.arange(nrows).reshape(nrows, -1)\<close>: in row \<open>k\<close> every
  column of \<open>dotindices\<close> receives \<open>k\<close>; a column that the array does not have raises
  \<^verbatim>\<open>IndexError\<close>.
\<close>

definition assign_rowindex :: "real list list \<Rightarrow> nat list \<Rightarrow> py_error + real list list" where
  "assign_rowindex rows dotindices =
     (if \<exists>i\<in>set dotindices. length (hd rows) \<le> i then Inl IndexError
      else Inr (map (\<lambda>(k, r). fold (\<lambda>i r. r[i := real k]) dotindices r) (enumerate 0 rows)))"

text \<open>\<^verbatim>\<open>a.squeeze()\<close> of a two-dimensional array with at least one row: the axes of length one
  are dropped.\<close>

definition squeeze :: "real list list \<Rightarrow> ndarray" where
  "squeeze rows =
     (if length rows = 1 \<and> length (hd rows) = 1 then Arr0 (hd (hd rows))
      else if length rows = 1 then Arr1 (hd rows)
      else if length (hd rows) = 1 then Arr1 (map hd rows)
      else Arr2 rows)"

text \<open>
  Lines 144-149: from the x and the y identifiers to \<^verbatim>\<open>nx\<close>, the positions \<^verbatim>\<open>dotindices\<close> of
  \<^verbatim>\<open>'.'\<close> in the joined list and the list \<^verbatim>\<open>uc\<close> in which \<^verbatim>\<open>dotalias\<close> has replaced them.
\<close>

definition dotindices_of :: "colid list \<Rightarrow> nat list" where
  "dotindices_of uc = map fst (filter (\<lambda>(i, c). c = Name ''.'') (enumerate 0 uc))"

definition dotalias_of :: "colid list \<Rightarrow> colid" where
  "dotalias_of uc = hd (filter (\<lambda>c. c \<noteq> Name ''.'') uc @ [Idx 0])"

definition replace_dots :: "colid list \<Rightarrow> colid list" where
  "replace_dots uc = fold (\<lambda>i u. u[i := dotalias_of uc]) (dotindices_of uc) uc"

text \<open>
  \<^verbatim>\<open>_loadplotdata(filename, xi, yi)\<close>, lines 128-157. \<^verbatim>\<open>loadData\<close> is imported from another
  package: it is the parameter \<open>loadData\<close>, the loader applied to the file, taking the
  \<^verbatim>\<open>usecols\<close> argument (\<open>None\<close> when the call has none).
\<close>

definition loadplotdata ::
  "(colid list option \<Rightarrow> py_error + ndarray) \<Rightarrow> colspec \<Rightarrow> colspec \<Rightarrow> py_error + (ndarray \<times> ndarray)" where
  "loadplotdata loadData xi yi =
     (case parsecolumnid xi of
        Inl e \<Rightarrow> Inl e
      | Inr xi1 \<Rightarrow>
     (case parsecolumnid yi of
        Inl e \<Rightarrow> Inl e
      | Inr None \<Rightarrow>
          (case xi1 of
             Some xl \<Rightarrow> Inl (ValueError ''y-column must be specified for explicit x.'')
           | None \<Rightarrow>
               (case loadData None of
                  Inl e \<Rightarrow> Inl e
                | Inr d \<Rightarrow>
                    if ndim d \<le> 1 then Inr (Arr1 (map real [0..<size_of d]), d)
                    else if \<exists>r\<in>set (reshape_rows d). length r < 2 then Inl IndexError
                    else Inr (Arr1 (map (\<lambda>r. r ! 0) (reshape_rows d)),
                              Arr1 (map (\<lambda>r. r ! 1) (reshape_rows d)))))
      | Inr (Some yl) \<Rightarrow>
          (let xl = (case xi1 of None \<Rightarrow> [Idx 0] | Some l \<Rightarrow> l);
               nx = length xl;
               uc = xl @ yl;
               dotindices = dotindices_of uc
           in case loadData (Some (replace_dots uc)) of
                Inl e \<Rightarrow> Inl e
              | Inr d \<Rightarrow>
                  if size_of d \<noteq> 0
                  then (case shape0 d of
                          Inl e \<Rightarrow> Inl e
                        | Inr nr \<Rightarrow>
                            (case assign_rowindex (reshape_rows d) dotindices of
                               Inl e \<Rightarrow> Inl e
                             | Inr t \<Rightarrow> Inr (squeeze (map (take nx) t), squeeze (map (drop nx) t))))
                  else Inr (d, d))))"

section \<open>Properties of the line classifier and of the threshold\<close>

lemma select_words_length: "select_words words uc = Inr sel \<Longrightarrow> length sel = length uc"
  by (induction uc arbitrary: sel) (auto split: sum.splits)

lemma select_words_error: "select_words words uc = Inl e \<Longrightarrow> e = IndexError"
  by (induction uc arbitrary: e) (auto simp: py_getitem_def Let_def split: sum.splits if_splits)

lemma len_map_float_cases:
  "len_map_float float_ok ws = Inr (int (length ws)) \<or> (\<exists>m. len_map_float float_ok ws = Inl (ValueError m))"
  by (simp add: len_map_float_def)

lemma py_split_error: "py_split delimiter line = Inl e \<Longrightarrow> \<exists>m. e = ValueError m"
  by (auto simp: py_split_def split: option.splits if_splits)

lemma count_body_error:
  "count_body float_ok delimiter usecols line = Inl e \<Longrightarrow> e = IndexError \<or> (\<exists>m. e = ValueError m)"
  by (auto simp: count_body_def Let_def len_map_float_def
           split: sum.splits option.splits if_splits
           dest: py_split_error select_words_error)

lemma count_body_value:
  "count_body float_ok delimiter usecols line = Inr ncv \<Longrightarrow>
     0 \<le> fst ncv \<and> (case usecols of Some uc \<Rightarrow> snd ncv = int (length uc) | None \<Rightarrow> snd ncv = fst ncv)"
  by (auto simp: count_body_def Let_def len_map_float_def
           split: sum.splits option.splits if_splits
           dest: select_words_length)

lemma countcolumnsvalues_cases:
  "(\<exists>e. count_body float_ok delimiter usecols line = Inl e \<and>
        countcolumnsvalues float_ok delimiter usecols line = Inr (0, 0))
   \<or> (\<exists>ncv. count_body float_ok delimiter usecols line = Inr ncv \<and>
        countcolumnsvalues float_ok delimiter usecols line = Inr ncv)"
proof (cases "count_body float_ok delimiter usecols line")
  case (Inl e)
  from count_body_error [OF this] show ?thesis
    by (auto simp: countcolumnsvalues_def Inl)
next
  case (Inr ncv)
  then show ?thesis by (simp add: countcolumnsvalues_def)
qed

lemma fold_min_Min: "fold min r (x::int) = Min (set (x # r))"
  by (rule Min.set_eq_fold [symmetric])

lemma fold_max_Max: "fold max r (x::int) = Max (set (x # r))"
  by (rule Max.set_eq_fold [symmetric])

lemma mincv_of_Some:
  assumes "uc \<noteq> []"
  shows "mincv_of (Some uc) = Inr (max (- Min (set uc)) (Max (set uc) + 1), int (card (set uc)))"
proof -
  from assms obtain x r where uc: "uc = x # r" by (cases uc) auto
  show ?thesis
    unfolding mincv_of_def py_min_def py_max_def uc
    by (simp add: fold_min_Min fold_max_Max length_remdups_card_conv del: set_simps remdups.simps)
qed

lemma mincv_of_Some_empty: "\<exists>m. mincv_of (Some []) = Inl (ValueError m)"
  by (simp add: mincv_of_def py_min_def)

lemma hiidx_pos:
  fixes uc :: "int list"
  assumes "uc \<noteq> []"
  shows "1 \<le> max (- Min (set uc)) (Max (set uc) + 1)"
proof -
  have le: "Min (set uc) \<le> Max (set uc)" using assms by simp
  have "\<And>a b :: int. a \<le> b \<Longrightarrow> 1 \<le> max (- a) (b + 1)" by arith
  from this [OF le] show ?thesis .
qed

lemma mincv_of_bounds:
  assumes "mincv_of usecols = Inr mincv"
  shows "1 \<le> fst mincv \<and> (case usecols of None \<Rightarrow> mincv = (1, 1)
            | Some uc \<Rightarrow> uc \<noteq> [] \<and> snd mincv = int (card (set uc)) \<and> snd mincv \<le> int (length uc))"
proof (cases usecols)
  case None
  with assms show ?thesis by (auto simp: mincv_of_def)
next
  case (Some uc)
  show ?thesis
  proof (cases "uc = []")
    case True
    with assms Some show ?thesis by (simp add: mincv_of_def py_min_def)
  next
    case False
    from mincv_of_Some [OF False] assms Some hiidx_pos [OF False]
    show ?thesis by (auto simp: False card_length)
  qed
qed

text \<open>
  C1. A scanned line qualifies, that is the test \<^verbatim>\<open>ncv < mincv\<close> of line 70 is false, exactly
  when its classification \<open>(nc, nv)\<close> is at least the threshold in both components. The
  test compares the tuples lexicographically; on the pairs the classifier produces and the
  thresholds \<open>mincv_of\<close> computes, the two orders agree, so a line that falls below the
  threshold in either component does not qualify.
\<close>

theorem line_qualifies_iff_componentwise:
  assumes "mincv_of usecols = Inr mincv"
  shows "\<exists>ncv. countcolumnsvalues float_ok delimiter usecols line = Inr ncv \<and>
           ((\<not> tuple_lt ncv mincv) \<longleftrightarrow> (fst mincv \<le> fst ncv \<and> snd mincv \<le> snd ncv))"
proof -
  note b = mincv_of_bounds [OF assms]
  from countcolumnsvalues_cases [of float_ok delimiter usecols line]
  show ?thesis
  proof (elim disjE exE conjE)
    fix e
    assume "countcolumnsvalues float_ok delimiter usecols line = Inr (0, 0)"
    with b show ?thesis by (auto simp: tuple_lt_def)
  next
    fix ncv
    assume cb: "count_body float_ok delimiter usecols line = Inr ncv"
      and cc: "countcolumnsvalues float_ok delimiter usecols line = Inr ncv"
    from count_body_value [OF cb] b cc show ?thesis
      by (cases usecols) (auto simp: tuple_lt_def)
  qed
qed

theorem line_qualifies_iff_componentwise_witness:
  "mincv_of (Some [1]) = Inr (2, 1) \<and>
   (\<exists>ncv. countcolumnsvalues decimal_literal None (Some [1]) ''1 2 3\<newline>'' = Inr ncv \<and>
      ((\<not> tuple_lt ncv (2, 1)) \<longleftrightarrow> (fst (2, 1 :: int) \<le> fst ncv \<and> snd (2 :: int, 1) \<le> snd ncv)))"
proof -
  have h: "mincv_of (Some [1]) = Inr (2, 1)" by code_simp
  from line_qualifies_iff_componentwise [OF h, of decimal_literal None "''1 2 3\<newline>''"] h
  show ?thesis by blast
qed

text \<open>
  C3. Without \<^verbatim>\<open>usecols\<close> the threshold is \<open>(1, 1)\<close>. With a (non-empty) resolved list its
  column count is \<^verbatim>\<open>max(-min(usecols), max(usecols) + 1)\<close> and its value count is the number of
  distinct requested columns. (On an empty list \<^verbatim>\<open>min\<close> raises \<^verbatim>\<open>ValueError\<close> and there is
  no threshold: \<open>mincv_of_Some_empty\<close>.)
\<close>

theorem threshold_derivation:
  "mincv_of None = Inr (1, 1) \<and>
   (uc \<noteq> [] \<longrightarrow>
      mincv_of (Some uc) = Inr (max (- Min (set uc)) (Max (set uc) + 1), int (card (set uc))))"
  using mincv_of_Some [of uc] by (simp add: mincv_of_def)

theorem threshold_derivation_witness:
  "[- 3, 1, 1] \<noteq> ([] :: int list) \<and> mincv_of None = Inr (1, 1) \<and> mincv_of (Some [- 3, 1, 1]) = Inr (3, 2)"
  using threshold_derivation [of "[- 3, 1, 1]"] by simp

text \<open>
  C10. The classifier never raises: whatever the line, the delimiter and the requested
  columns, it returns a pair. When the split fails (empty delimiter), when a requested
  index is out of range, or when a field that has to be converted is not a float, the pair
  is \<open>(0, 0)\<close>. With \<^verbatim>\<open>usecols\<close> given, every other pair has as value count the number of
  requested entries, which is at least the number of distinct requested columns.
\<close>

theorem classifier_total:
  "\<exists>ncv. countcolumnsvalues float_ok delimiter usecols line = Inr ncv \<and>
     ((\<exists>e. py_split delimiter line = Inl e) \<longrightarrow> ncv = (0, 0)) \<and>
     (\<forall>ws uc. py_split delimiter line = Inr ws \<and> usecols = Some uc \<and>
        (\<exists>e. select_words (drop_trailing_blank ws) uc = Inl e) \<longrightarrow> ncv = (0, 0)) \<and>
     (\<forall>ws uc sel. py_split delimiter line = Inr ws \<and> usecols = Some uc \<and>
        select_words (drop_trailing_blank ws) uc = Inr sel \<and> \<not> list_all float_ok sel
        \<longrightarrow> ncv = (0, 0)) \<and>
     (\<forall>ws. py_split delimiter line = Inr ws \<and> usecols = None \<and>
        \<not> list_all float_ok (drop_trailing_blank ws) \<longrightarrow> ncv = (0, 0)) \<and>
     (\<forall>uc. usecols = Some uc \<and> ncv \<noteq> (0, 0) \<longrightarrow>
        snd ncv = int (length uc) \<and> int (card (set uc)) \<le> snd ncv)"
proof -
  from countcolumnsvalues_cases [of float_ok delimiter usecols line]
  show ?thesis
  proof (elim disjE exE conjE)
    fix e
    assume "countcolumnsvalues float_ok delimiter usecols line = Inr (0, 0)"
    then show ?thesis by simp
  next
    fix ncv
    assume cb: "count_body float_ok delimiter usecols line = Inr ncv"
      and cc: "countcolumnsvalues float_ok delimiter usecols line = Inr ncv"
    have split_ok: "\<not> (\<exists>e. py_split delimiter line = Inl e)"
      using cb by (auto simp: count_body_def)
    have sel_ok: "\<And>ws uc. py_split delimiter line = Inr ws \<Longrightarrow> usecols = Some uc \<Longrightarrow>
        \<not> (\<exists>e. select_words (drop_trailing_blank ws) uc = Inl e)"
      using cb by (auto simp: count_body_def Let_def)
    have conv_ok: "\<And>ws uc sel. py_split delimiter line = Inr ws \<Longrightarrow> usecols = Some uc \<Longrightarrow>
        select_words (drop_trailing_blank ws) uc = Inr sel \<Longrightarrow> list_all float_ok sel"
      using cb by (auto simp: count_body_def Let_def len_map_float_def split: if_splits)
    have conv_all_ok: "\<And>ws. py_split delimiter line = Inr ws \<Longrightarrow> usecols = None \<Longrightarrow>
        list_all float_ok (drop_trailing_blank ws)"
      using cb by (auto simp: count_body_def Let_def len_map_float_def split: if_splits)
    have nv: "\<And>uc. usecols = Some uc \<Longrightarrow>
        snd ncv = int (length uc) \<and> int (card (set uc)) \<le> snd ncv"
      using count_body_value [OF cb] by (auto simp: card_length)
    from cc split_ok sel_ok conv_ok conv_all_ok nv show ?thesis by blast
  qed
qed

theorem classifier_total_witness:
  "countcolumnsvalues decimal_literal (Some []) (Some [0]) ''1 2\<newline>'' = Inr (0, 0) \<and>
   countcolumnsvalues decimal_literal None (Some [5]) ''1 2\<newline>'' = Inr (0, 0) \<and>
   countcolumnsvalues decimal_literal None (Some [0, 1]) ''1 x\<newline>'' = Inr (0, 0) \<and>
   countcolumnsvalues decimal_literal None None ''1 x\<newline>'' = Inr (0, 0) \<and>
   (\<exists>ncv. countcolumnsvalues decimal_literal None (Some [0, 0]) ''1 2\<newline>'' = Inr ncv \<and>
      snd ncv = 2 \<and> 1 \<le> snd ncv)"
proof -
  have s1: "\<exists>e. py_split (Some []) ''1 2\<newline>'' = Inl e"
    by (simp add: py_split_def)
  have s2: "py_split None ''1 2\<newline>'' = Inr [''1'', ''2'']"
    by code_simp
  have s3: "py_split None ''1 x\<newline>'' = Inr [''1'', ''x'']"
    by code_simp
  have "select_words (drop_trailing_blank [''1'', ''2'']) [5] = Inl IndexError"
    by code_simp
  then have e2: "\<exists>e. select_words (drop_trailing_blank [''1'', ''2'']) [5] = Inl e"
    by blast
  have e3: "select_words (drop_trailing_blank [''1'', ''x'']) [0, 1] = Inr [''1'', ''x'']"
    by code_simp
  have f3: "\<not> list_all decimal_literal [''1'', ''x'']"
    by code_simp
  have g3: "\<not> list_all decimal_literal (drop_trailing_blank [''1'', ''x''])"
    by code_simp
  have v5: "countcolumnsvalues decimal_literal None (Some [0, 0]) ''1 2\<newline>'' \<noteq> Inr (0, 0)"
    by code_simp
  have k5: "int (length [0, 0 :: int]) = 2 \<and> int (card (set [0, 0 :: int])) = 1"
    by simp
  from classifier_total [of decimal_literal "Some []" "Some [0]" "''1 2\<newline>''"] s1
  have c1: "countcolumnsvalues decimal_literal (Some []) (Some [0]) ''1 2\<newline>'' = Inr (0, 0)"
    by blast
  from classifier_total [of decimal_literal None "Some [5]" "''1 2\<newline>''"] s2 e2
  have c2: "countcolumnsvalues decimal_literal None (Some [5]) ''1 2\<newline>'' = Inr (0, 0)"
    by blast
  from classifier_total [of decimal_literal None "Some [0, 1]" "''1 x\<newline>''"] s3 e3 f3
  have c3: "countcolumnsvalues decimal_literal None (Some [0, 1]) ''1 x\<newline>'' = Inr (0, 0)"
    by blast
  from classifier_total [of decimal_literal None None "''1 x\<newline>''"] s3 g3
  have c4: "countcolumnsvalues decimal_literal None None ''1 x\<newline>'' = Inr (0, 0)"
    by blast
  from classifier_total [of decimal_literal None "Some [0, 0]" "''1 2\<newline>''"] v5 k5
  have c5: "\<exists>ncv. countcolumnsvalues decimal_literal None (Some [0, 0]) ''1 2\<newline>'' = Inr ncv \<and>
      snd ncv = 2 \<and> 1 \<le> snd ncv"
    by metis
  from c1 c2 c3 c4 c5 show ?thesis by blast
qed

section \<open>Properties of the search loop and of the loader\<close>

lemma file_lines_acc_concat: "concat (file_lines_acc cur s) = rev cur @ s"
  by (induction s arbitrary: cur) auto

lemma concat_file_lines: "concat (file_lines content) = content"
  by (simp add: file_lines_def file_lines_acc_concat)

lemma scan_loop_skip:
  assumes "\<forall>l\<in>set pre. \<exists>ncv. classify l = Inr ncv \<and> tuple_lt ncv mincv"
    and "start st = None"
  shows "scan_loop classify mincv minrows st (pre @ rest) =
         scan_loop classify mincv minrows (st\<lparr>fpos := fpos st + length (concat pre)\<rparr>) rest"
  using assms
proof (induction pre arbitrary: st)
  case Nil
  then show ?case by simp
next
  case (Cons l pre)
  from Cons.prems obtain ncv where c: "classify l = Inr ncv" and lt: "tuple_lt ncv mincv"
    by auto
  let ?st = "st\<lparr>fpos := fpos st + length l, start := None\<rparr>"
  have "scan_loop classify mincv minrows st ((l # pre) @ rest) =
        scan_loop classify mincv minrows ?st (pre @ rest)"
    using c lt by (simp add: Let_def)
  also have "\<dots> = scan_loop classify mincv minrows (?st\<lparr>fpos := fpos ?st + length (concat pre)\<rparr>) rest"
    using Cons.prems by (intro Cons.IH) auto
  also have "?st\<lparr>fpos := fpos ?st + length (concat pre)\<rparr> = st\<lparr>fpos := fpos st + length (concat (l # pre))\<rparr>"
    using Cons.prems(2) by (simp add: add.assoc)
  finally show ?case .
qed

lemma scan_loop_in_block:
  assumes "\<forall>l\<in>set blk. classify l = Inr cv"
    and "\<not> tuple_lt cv mincv"
    and "blk \<noteq> []"
    and "minrows \<le> nrows st + int (length blk)"
    and "start st = Some s" and "ncvblock st = Some cv"
  shows "\<exists>st'. scan_loop classify mincv minrows st (blk @ rest) = Inr st' \<and>
           start st' = Some s \<and> ncvblock st' = Some cv"
  using assms
proof (induction blk arbitrary: st)
  case Nil
  then show ?case by simp
next
  case (Cons l blk)
  let ?st3 = "st\<lparr>fpos := fpos st + length l, nrows := nrows st + 1\<rparr>"
  have c: "classify l = Inr cv" using Cons.prems(1) by simp
  show ?case
  proof (cases "minrows \<le> nrows st + 1")
    case True
    then show ?thesis using c Cons.prems by (simp add: Let_def)
  next
    case False
    with Cons.prems(4) have ne: "blk \<noteq> []" by auto
    have step: "scan_loop classify mincv minrows st ((l # blk) @ rest) =
                scan_loop classify mincv minrows ?st3 (blk @ rest)"
      using c Cons.prems False by (simp add: Let_def)
    have "\<exists>st'. scan_loop classify mincv minrows ?st3 (blk @ rest) = Inr st' \<and>
           start st' = Some s \<and> ncvblock st' = Some cv"
      using Cons.prems ne by (intro Cons.IH) auto
    with step show ?thesis by simp
  qed
qed

lemma scan_loop_enter_block:
  assumes "\<forall>l\<in>set blk. classify l = Inr cv"
    and "\<not> tuple_lt cv mincv"
    and "blk \<noteq> []"
    and "minrows \<le> int (length blk)"
    and "start st = None"
  shows "\<exists>st'. scan_loop classify mincv minrows st (blk @ rest) = Inr st' \<and>
           start st' = Some (fpos st) \<and> ncvblock st' = Some cv"
proof -
  from assms(3) obtain l ls where blk: "blk = l # ls" by (cases blk) auto
  have c: "classify l = Inr cv" using assms(1) blk by simp
  let ?st3 = "st\<lparr>fpos := fpos st + length l, ncvblock := Some cv, start := Some (fpos st), nrows := 1\<rparr>"
  show ?thesis
  proof (cases "minrows \<le> 1")
    case True
    then show ?thesis using c assms blk by (simp add: Let_def)
  next
    case False
    with assms(4) blk have ne: "ls \<noteq> []" by auto
    have step: "scan_loop classify mincv minrows st (blk @ rest) =
                scan_loop classify mincv minrows ?st3 (ls @ rest)"
      using c assms False blk by (simp add: Let_def)
    have "\<exists>st'. scan_loop classify mincv minrows ?st3 (ls @ rest) = Inr st' \<and>
           start st' = Some (fpos st) \<and> ncvblock st' = Some cv"
      using assms ne blk by (intro scan_loop_in_block) auto
    with step show ?thesis by simp
  qed
qed

lemma scan_finds_block:
  assumes "\<forall>l\<in>set pre. \<exists>ncv. classify l = Inr ncv \<and> tuple_lt ncv mincv"
    and "\<forall>l\<in>set blk. classify l = Inr cv"
    and "\<not> tuple_lt cv mincv"
    and "blk \<noteq> []"
    and "minrows \<le> int (length blk)"
  shows "\<exists>st'. scan_loop classify mincv minrows scan_init (pre @ blk @ rest) = Inr st' \<and>
           start st' = Some (length (concat pre)) \<and> ncvblock st' = Some cv"
proof -
  have "scan_loop classify mincv minrows scan_init (pre @ blk @ rest) =
        scan_loop classify mincv minrows (scan_init\<lparr>fpos := fpos scan_init + length (concat pre)\<rparr>) (blk @ rest)"
    using assms(1) by (intro scan_loop_skip) (auto simp: scan_init_def)
  moreover have "\<exists>st'. scan_loop classify mincv minrows (scan_init\<lparr>fpos := fpos scan_init + length (concat pre)\<rparr>) (blk @ rest) = Inr st' \<and>
           start st' = Some (fpos (scan_init\<lparr>fpos := fpos scan_init + length (concat pre)\<rparr>)) \<and> ncvblock st' = Some cv"
    using assms by (intro scan_loop_enter_block) (auto simp: scan_init_def)
  ultimately show ?thesis by (simp add: scan_init_def)
qed

text \<open>
  C2. Let the lines of the file be \<open>N\<close> non-qualifying lines \<open>pre\<close>, then a run \<open>blk\<close> of at
  least \<^verbatim>\<open>minrows\<close> qualifying lines with one and the same classification, then anything.
  The search ends with \<^verbatim>\<open>start\<close> equal to the sum of the byte lengths of the lines of \<open>pre\<close>,
  which is the position of the first byte of the first line of \<open>blk\<close> in the file, whatever
  \<open>N\<close> is.
\<close>

theorem scan_returns_block_offset:
  assumes "file_lines content = pre @ blk @ rest"
    and "\<forall>l\<in>set pre. \<exists>ncv. countcolumnsvalues float_ok delimiter usecols l = Inr ncv \<and>
           tuple_lt ncv mincv"
    and "\<forall>l\<in>set blk. countcolumnsvalues float_ok delimiter usecols l = Inr cv"
    and "\<not> tuple_lt cv mincv"
    and "blk \<noteq> []"
    and "minrows \<le> int (length blk)"
  shows "\<exists>st. scan_loop (countcolumnsvalues float_ok delimiter usecols) mincv minrows
               scan_init (file_lines content) = Inr st \<and>
           start st = Some (sum_list (map length pre)) \<and>
           drop (sum_list (map length pre)) content = concat (blk @ rest)"
proof -
  have len: "sum_list (map length pre) = length (concat pre)"
    by (simp add: length_concat)
  have "content = concat pre @ concat (blk @ rest)"
    using concat_file_lines [of content] assms(1) by simp
  then have "drop (length (concat pre)) content = concat (blk @ rest)"
    by simp
  moreover from scan_finds_block [OF assms(2-6), of rest]
  obtain st where "scan_loop (countcolumnsvalues float_ok delimiter usecols) mincv minrows
               scan_init (pre @ blk @ rest) = Inr st"
    and "start st = Some (length (concat pre))"
    by blast
  ultimately show ?thesis
    using assms(1) len by auto
qed

theorem scan_returns_block_offset_witness:
  "\<exists>st. scan_loop (countcolumnsvalues decimal_literal None None) (1, 1) 2
          scan_init (file_lines ''# x y\<newline>\<newline>1 2 \<newline>3 4\<newline>5 6\<newline>'') = Inr st \<and>
        start st = Some 7 \<and>
        drop 7 ''# x y\<newline>\<newline>1 2 \<newline>3 4\<newline>5 6\<newline>'' = ''1 2 \<newline>3 4\<newline>5 6\<newline>''"
proof -
  have fl: "file_lines ''# x y\<newline>\<newline>1 2 \<newline>3 4\<newline>5 6\<newline>'' =
            [''# x y\<newline>'', ''\<newline>''] @ [''1 2 \<newline>'', ''3 4\<newline>''] @ [''5 6\<newline>'']"
    by code_simp
  have p1: "countcolumnsvalues decimal_literal None None ''# x y\<newline>'' = Inr (0, 0)"
    by code_simp
  have p2: "countcolumnsvalues decimal_literal None None ''\<newline>'' = Inr (0, 0)"
    by code_simp
  have lt0: "tuple_lt (0, 0) (1, 1)"
    by (simp add: tuple_lt_def)
  have b1: "countcolumnsvalues decimal_literal None None ''1 2 \<newline>'' = Inr (2, 2)"
    by code_simp
  have b2: "countcolumnsvalues decimal_literal None None ''3 4\<newline>'' = Inr (2, 2)"
    by code_simp
  have pre: "\<forall>l\<in>set [''# x y\<newline>'', ''\<newline>''].
        \<exists>ncv. countcolumnsvalues decimal_literal None None l = Inr ncv \<and> tuple_lt ncv (1, 1)"
    using p1 p2 lt0 by simp
  have blk: "\<forall>l\<in>set [''1 2 \<newline>'', ''3 4\<newline>''].
        countcolumnsvalues decimal_literal None None l = Inr (2, 2)"
    using b1 b2 by simp
  have q: "\<not> tuple_lt (2, 2) (1, 1)"
    by (simp add: tuple_lt_def)
  have ne: "[''1 2 \<newline>'', ''3 4\<newline>''] \<noteq> []"
    by simp
  have n: "2 \<le> int (length [''1 2 \<newline>'', ''3 4\<newline>''])"
    by simp
  have seven: "sum_list (map length [''# x y\<newline>'', ''\<newline>'']) = 7"
    by simp
  from scan_returns_block_offset [OF fl pre blk q ne n] show ?thesis
    unfolding seven by simp
qed

text \<open>
  C4, evaluated on a file of two numeric rows with \<^verbatim>\<open>minrows = 10\<close>: no block reaches ten
  rows, yet the loop ends with \<^verbatim>\<open>start = 0\<close> (it is reset only by a non-qualifying line) and
  \<^verbatim>\<open>load_data\<close> does not return the empty array but calls \<^verbatim>\<open>loadtxt\<close> at offset 0.
\<close>

theorem load_data_short_trailing_block:
  "int (length (file_lines ''1 2\<newline>3 4\<newline>'')) < 10 \<and>
   load_data decimal_literal ''1 2\<newline>3 4\<newline>'' 10 None KwAbsent = Inr (LoadTxt 0 (Some [0, 1])) \<and>
   load_data decimal_literal ''1 2\<newline>3 4\<newline>'' 10 None KwAbsent \<noteq> Inr EmptyArray"
  by code_simp





section \<open>Properties of the x and y loader\<close>

lemma fold_update_length: "length (fold (\<lambda>i r. r[i := v]) js r) = length r"
  by (induction js arbitrary: r) auto

lemma fold_update_nth:
  "p < length r \<Longrightarrow> fold (\<lambda>i r. r[i := v]) js r ! p = (if p \<in> set js then v else r ! p)"
proof (induction js arbitrary: r)
  case Nil
  then show ?case by simp
next
  case (Cons j js)
  have "fold (\<lambda>i r. r[i := v]) (j # js) r ! p = fold (\<lambda>i r. r[i := v]) js (r[j := v]) ! p"
    by simp
  also have "\<dots> = (if p \<in> set js then v else r[j := v] ! p)"
    using Cons.prems by (intro Cons.IH) simp
  also have "\<dots> = (if p \<in> set (j # js) then v else r ! p)"
    using Cons.prems by (auto simp: nth_list_update)
  finally show ?case .
qed

lemma set_dotindices_of: "set (dotindices_of uc) = {i. i < length uc \<and> uc ! i = Name ''.''}"
  by (force simp: dotindices_of_def enumerate_eq_zip in_set_zip)

lemma dotalias_of_cases:
  "dotalias_of uc = (case filter (\<lambda>c. c \<noteq> Name ''.'') uc of [] \<Rightarrow> Idx 0 | c # r \<Rightarrow> c)"
  by (simp add: dotalias_of_def split: list.splits)

lemma dotalias_of_not_dot: "dotalias_of uc \<noteq> Name ''.''"
proof (cases "filter (\<lambda>c. c \<noteq> Name ''.'') uc")
  case Nil
  then show ?thesis by (simp add: dotalias_of_cases)
next
  case (Cons c r)
  then have "c \<in> set (filter (\<lambda>c. c \<noteq> Name ''.'') uc)" by simp
  then have "c \<noteq> Name ''.''" by simp
  with Cons show ?thesis by (simp add: dotalias_of_cases)
qed

lemma replace_dots_length: "length (replace_dots uc) = length uc"
  by (simp add: replace_dots_def fold_update_length)

lemma replace_dots_nth:
  "i < length uc \<Longrightarrow>
   replace_dots uc ! i = (if uc ! i = Name ''.'' then dotalias_of uc else uc ! i)"
  by (simp add: replace_dots_def fold_update_nth set_dotindices_of)

text \<open>
  C7, amended. Normalisation (lines 145-149) replaces every \<^verbatim>\<open>'.'\<close> of the joined list, in
  place, by one and the same substitute and leaves the other entries as they are. The
  substitute is the first entry of the list that is not \<^verbatim>\<open>'.'\<close>, an integer or a column name
  as that entry is, and the integer 0 when every entry is \<^verbatim>\<open>'.'\<close>; it is never \<^verbatim>\<open>'.'\<close> itself.
\<close>

theorem alias_replaced_by_first_entry:
  "length (replace_dots uc) = length uc \<and>
   (\<forall>i<length uc. replace_dots uc ! i = (if uc ! i = Name ''.'' then dotalias_of uc else uc ! i)) \<and>
   dotalias_of uc = (case filter (\<lambda>c. c \<noteq> Name ''.'') uc of [] \<Rightarrow> Idx 0 | c # r \<Rightarrow> c) \<and>
   dotalias_of uc \<noteq> Name ''.''"
  using replace_dots_length [of uc] replace_dots_nth [of _ uc] dotalias_of_cases [of uc]
    dotalias_of_not_dot [of uc]
  by blast

theorem alias_replaced_by_first_entry_witness:
  "replace_dots [Name ''.'', Idx 2, Name ''.''] ! 0 = Idx 2 \<and>
   replace_dots [Name ''.'', Idx 2, Name ''.''] ! 1 = Idx 2 \<and>
   replace_dots [Name ''.'', Idx 2, Name ''.''] ! 2 = Idx 2 \<and>
   length (replace_dots [Name ''.'', Idx 2, Name ''.'']) = 3"
proof -
  let ?uc = "[Name ''.'', Idx 2, Name ''.'']"
  from alias_replaced_by_first_entry [of ?uc]
  have l: "length (replace_dots ?uc) = length ?uc"
    and n: "\<forall>i<length ?uc. replace_dots ?uc ! i = (if ?uc ! i = Name ''.'' then dotalias_of ?uc else ?uc ! i)"
    and a: "dotalias_of ?uc = (case filter (\<lambda>c. c \<noteq> Name ''.'') ?uc of [] \<Rightarrow> Idx 0 | c # r \<Rightarrow> c)"
    by blast+
  from a have a2: "dotalias_of ?uc = Idx 2" by simp
  from n have "replace_dots ?uc ! 0 = Idx 2" "replace_dots ?uc ! 1 = Idx 2" "replace_dots ?uc ! 2 = Idx 2"
    unfolding a2 by simp_all
  with l show ?thesis by simp
qed

text \<open>
  C7 as stated fails: for x given as \<^verbatim>\<open>"G"\<close> and y as \<^verbatim>\<open>"."\<close> the substitute is the column
  name \<^verbatim>\<open>'G'\<close>, not an integer.
\<close>

theorem alias_always_integer_counterexample:
  "parsecolumnid (SpecStr ''G'') = Inr (Some [Name ''G'']) \<and>
   parsecolumnid (SpecStr ''.'') = Inr (Some [Name ''.'']) \<and>
   dotalias_of ([Name ''G''] @ [Name ''.'']) = Name ''G'' \<and>
   replace_dots ([Name ''G''] @ [Name ''.'']) = [Name ''G'', Name ''G'']"
  by code_simp


lemma assign_rowindex_ok:
  assumes "rows \<noteq> []" and "\<forall>r\<in>set rows. length r = n" and "\<forall>i\<in>set dots. i < n"
  shows "\<exists>t. assign_rowindex rows dots = Inr t \<and> length t = length rows \<and>
           (\<forall>r\<in>set t. length r = n) \<and>
           (\<forall>k<length rows. \<forall>p<n. t ! k ! p = (if p \<in> set dots then real k else rows ! k ! p))"
proof -
  let ?t = "map (\<lambda>(k, r). fold (\<lambda>i r. r[i := real k]) dots r) (enumerate 0 rows)"
  have hd: "length (hd rows) = n" using assms(1,2) by (cases rows) auto
  have ok: "assign_rowindex rows dots = Inr ?t"
    using assms(3) hd by (auto simp: assign_rowindex_def)
  have len: "length ?t = length rows" by simp
  have nth: "\<And>k. k < length rows \<Longrightarrow> ?t ! k = fold (\<lambda>i r. r[i := real k]) dots (rows ! k)"
    by (simp add: nth_enumerate_eq)
  have rl: "\<forall>r\<in>set ?t. length r = n"
    using assms(2) by (auto simp: enumerate_eq_zip fold_update_length dest: set_zip_rightD)
  have val: "\<forall>k<length rows. \<forall>p<n. ?t ! k ! p = (if p \<in> set dots then real k else rows ! k ! p)"
  proof (intro allI impI)
    fix k p assume k: "k < length rows" and p: "p < n"
    from k assms(2) have "length (rows ! k) = n" by simp
    with p show "?t ! k ! p = (if p \<in> set dots then real k else rows ! k ! p)"
      by (simp add: nth [OF k] fold_update_nth)
  qed
  from ok len rl val show ?thesis by blast
qed

text \<open>
  The loads on which the row index is right. Let \<^verbatim>\<open>loadData\<close> return an array \<open>d\<close> that is
  not empty and that, seen as rows (\<^verbatim>\<open>d.reshape((nrows, -1))\<close>, line 154), has one column
  for each entry of the normalised list. Then \<^verbatim>\<open>_loadplotdata\<close> returns the first \<open>nx\<close>
  columns and the other columns (each squeezed) of a table \<open>t\<close> with the same number of
  rows, in which every column at a position where \<^verbatim>\<open>'.'\<close> was requested is
  \<open>0, 1, ..., nrows - 1\<close> and every other column is the loaded one.
\<close>

lemma dot_columns_hold_row_index:
  assumes "parsecolumnid xi = Inr xi1"
    and "parsecolumnid yi = Inr (Some yl)"
    and "xl = (case xi1 of None \<Rightarrow> [Idx 0] | Some l \<Rightarrow> l)"
    and "loadData (Some (replace_dots (xl @ yl))) = Inr d"
    and "size_of d \<noteq> 0" and "ndim d \<noteq> 0"
    and "rows = reshape_rows d"
    and "\<forall>r\<in>set rows. length r = length (xl @ yl)"
  shows "\<exists>t. loadplotdata loadData xi yi =
               Inr (squeeze (map (take (length xl)) t), squeeze (map (drop (length xl)) t)) \<and>
           length t = length rows \<and>
           (\<forall>r\<in>set t. length r = length (xl @ yl)) \<and>
           (\<forall>p<length (xl @ yl). (xl @ yl) ! p = Name ''.'' \<longrightarrow>
              map (\<lambda>r. r ! p) t = map real [0..<length rows]) \<and>
           (\<forall>p<length (xl @ yl). (xl @ yl) ! p \<noteq> Name ''.'' \<longrightarrow>
              map (\<lambda>r. r ! p) t = map (\<lambda>r. r ! p) rows)"
proof -
  let ?uc = "xl @ yl"
  let ?n = "length ?uc"
  from assms(5-7) have ne: "rows \<noteq> []"
    by (cases d) (auto simp: size_of_def reshape_rows_def ndim_def)
  from assms(6) obtain nr where sh: "shape0 d = Inr nr"
    by (cases d) (auto simp: shape0_def ndim_def)
  have dots: "\<forall>i\<in>set (dotindices_of ?uc). i < ?n"
    by (simp add: set_dotindices_of)
  from assign_rowindex_ok [OF ne assms(8) dots]
  obtain t where t: "assign_rowindex rows (dotindices_of ?uc) = Inr t"
    and len: "length t = length rows"
    and rl: "\<forall>r\<in>set t. length r = ?n"
    and val: "\<forall>k<length rows. \<forall>p<?n.
        t ! k ! p = (if p \<in> set (dotindices_of ?uc) then real k else rows ! k ! p)"
    by blast
  have res: "loadplotdata loadData xi yi =
      Inr (squeeze (map (take (length xl)) t), squeeze (map (drop (length xl)) t))"
    using assms(1,2,4,5) t sh
    by (simp add: loadplotdata_def Let_def assms(3) [symmetric] assms(7) [symmetric])
  have dotcol: "\<forall>p<?n. ?uc ! p = Name ''.'' \<longrightarrow> map (\<lambda>r. r ! p) t = map real [0..<length rows]"
  proof (intro allI impI)
    fix p assume p: "p < ?n" and d: "?uc ! p = Name ''.''"
    then have "p \<in> set (dotindices_of ?uc)" by (simp add: set_dotindices_of)
    with val p have "\<forall>k<length rows. t ! k ! p = real k" by simp
    with len show "map (\<lambda>r. r ! p) t = map real [0..<length rows]"
      by (intro nth_equalityI) auto
  qed
  have othercol: "\<forall>p<?n. ?uc ! p \<noteq> Name ''.'' \<longrightarrow> map (\<lambda>r. r ! p) t = map (\<lambda>r. r ! p) rows"
  proof (intro allI impI)
    fix p assume p: "p < ?n" and d: "?uc ! p \<noteq> Name ''.''"
    then have "p \<notin> set (dotindices_of ?uc)" by (simp add: set_dotindices_of)
    with val p have "\<forall>k<length rows. t ! k ! p = rows ! k ! p" by simp
    with len show "map (\<lambda>r. r ! p) t = map (\<lambda>r. r ! p) rows"
      by (intro nth_equalityI) auto
  qed
  from res len rl dotcol othercol show ?thesis by blast
qed

text \<open>The request x = \<^verbatim>\<open>"1"\<close>, y = \<^verbatim>\<open>"."\<close> on 15 rows: the table has 15 rows and 2 columns
  and the second column is \<open>0 .. 14\<close>.\<close>

lemma dot_columns_on_fifteen_rows:
  "(\<exists>t. loadplotdata (\<lambda>uc. Inr (Arr2 (map (\<lambda>k. [real k + 1 / 2, real k + 1 / 2]) [0..<15])))
           (SpecStr ''1'') (SpecStr ''.'') =
          Inr (squeeze (map (take 1) t), squeeze (map (drop 1) t)) \<and>
        length t = 15 \<and> (\<forall>r\<in>set t. length r = 2) \<and>
        map (\<lambda>r. r ! 1) t = map real [0..<15]) \<and>
   loadplotdata (\<lambda>uc. Inr (Arr2 (map (\<lambda>k. [real k + 1 / 2, real k + 1 / 2]) [0..<15])))
           (SpecStr ''1'') (SpecStr ''.'') =
     Inr (Arr1 (map (\<lambda>k. real k + 1 / 2) [0..<15]),
          Arr1 [0, 1, 2, 3, 4, 5, 6, 7, 8, 9, 10, 11, 12, 13, 14])"
proof -
  let ?rows = "map (\<lambda>k. [real k + 1 / 2, real k + 1 / 2]) [0..<15]"
  let ?L = "\<lambda>uc :: colid list option. (Inr (Arr2 ?rows) :: py_error + ndarray)"
  have px: "parsecolumnid (SpecStr ''1'') = Inr (Some [Idx 1])"
    by code_simp
  have py: "parsecolumnid (SpecStr ''.'') = Inr (Some [Name ''.''])"
    by code_simp
  have xl: "[Idx 1] = (case Some [Idx 1] of None \<Rightarrow> [Idx 0] | Some l \<Rightarrow> l)"
    by simp
  have ld: "?L (Some (replace_dots ([Idx 1] @ [Name ''.'']))) = Inr (Arr2 ?rows)"
    by simp
  have rl: "\<forall>r\<in>set ?rows. length r = length ([Idx 1] @ [Name ''.''])"
    by auto
  have sz: "size_of (Arr2 ?rows) \<noteq> 0"
    by code_simp
  have nd: "ndim (Arr2 ?rows) \<noteq> 0"
    by (simp add: ndim_def)
  have rr: "?rows = reshape_rows (Arr2 ?rows)"
    by (simp add: reshape_rows_def)
  from dot_columns_hold_row_index [of "SpecStr ''1''" "Some [Idx 1]" "SpecStr ''.''" "[Name ''.'']"
      "[Idx 1]" ?L "Arr2 ?rows" ?rows, OF px py xl ld sz nd rr rl]
  obtain t where r: "loadplotdata ?L (SpecStr ''1'') (SpecStr ''.'') =
               Inr (squeeze (map (take 1) t), squeeze (map (drop 1) t))"
    and l: "length t = length ?rows"
    and w: "\<forall>r\<in>set t. length r = 2"
    and d: "\<forall>p<length ([Idx 1] @ [Name ''.'']). ([Idx 1] @ [Name ''.'']) ! p = Name ''.'' \<longrightarrow>
              map (\<lambda>r. r ! p) t = map real [0..<length ?rows]"
    by auto
  from d have d1: "map (\<lambda>r. r ! 1) t = map real [0..<length ?rows]"
    by simp
  have ev: "loadplotdata ?L (SpecStr ''1'') (SpecStr ''.'') =
     Inr (Arr1 (map (\<lambda>k. real k + 1 / 2) [0..<15]),
          Arr1 [0, 1, 2, 3, 4, 5, 6, 7, 8, 9, 10, 11, 12, 13, 14])"
    by code_simp
  from r l w d1 have "\<exists>t. loadplotdata ?L (SpecStr ''1'') (SpecStr ''.'') =
          Inr (squeeze (map (take 1) t), squeeze (map (drop 1) t)) \<and>
        length t = 15 \<and> (\<forall>r\<in>set t. length r = 2) \<and>
        map (\<lambda>r. r ! 1) t = map real [0..<15]"
    by (intro exI [of _ t]) simp
  with ev show ?thesis by blast
qed

text \<open>
  C6, evaluated on a load of one data row. For the file \<^verbatim>\<open>"1 2 3 4 5\n"\<close> the loader of
  \<^verbatim>\<open>utils/load_data.py\<close> calls \<^verbatim>\<open>loadtxt\<close> at offset 0 with \<^verbatim>\<open>usecols = [1, 1]\<close> (the loop ends
  inside a block shorter than \<^verbatim>\<open>minrows\<close>), and for one row \<^verbatim>\<open>loadtxt\<close> returns the
  one-dimensional array \<^verbatim>\<open>[2., 2.]\<close>. Lines 153-154 take its two values for two rows
  of one column: for x = \<^verbatim>\<open>"1"\<close>, y = \<^verbatim>\<open>"."\<close> line 155 raises \<^verbatim>\<open>IndexError\<close>, and for
  x = \<^verbatim>\<open>"."\<close>, y = \<^verbatim>\<open>"1"\<close> the x returned is \<open>0, 1\<close> although the table has one row.
\<close>

theorem loadplotdata_single_row:
  "load_data decimal_literal ''1 2 3 4 5\<newline>'' 10 None (KwCols [1, 1]) = Inr (LoadTxt 0 (Some [1, 1])) \<and>
   loadplotdata (\<lambda>uc. if uc = Some [Idx 1, Idx 1] then Inr (Arr1 [2, 2]) else Inl NotModelled)
     (SpecStr ''1'') (SpecStr ''.'') = Inl IndexError \<and>
   loadplotdata (\<lambda>uc. if uc = Some [Idx 1, Idx 1] then Inr (Arr1 [2, 2]) else Inl NotModelled)
     (SpecStr ''.'') (SpecStr ''1'') = Inr (Arr1 [0, 1], Arr2 [[], []])"
  by code_simp

section \<open>Properties of the column identifier parser\<close>

lemma arange_count_pos:
  fixes a b c :: int
  assumes "0 < c"
  shows "int k < - ((a - b) div c) \<longleftrightarrow> a + int k * c < b"
proof -
  have "(a - b + int k * c) div c = (a - b) div c + int k"
    using assms by simp
  moreover have "(a - b + int k * c) div c < 0 \<longleftrightarrow> a - b + int k * c < 0"
    using assms by (rule pos_imp_zdiv_neg_iff)
  ultimately show ?thesis by linarith
qed

lemma arange_count_neg:
  fixes a b c :: int
  assumes "c < 0"
  shows "int k < - ((a - b) div c) \<longleftrightarrow> b < a + int k * c"
proof -
  have "(a - b + int k * c) div c = (a - b) div c + int k"
    using assms by simp
  moreover have "(a - b + int k * c) div c < 0 \<longleftrightarrow> 0 < a - b + int k * c"
    using assms by (rule neg_imp_zdiv_neg_iff)
  ultimately show ?thesis by linarith
qed

lemma arange_spec:
  assumes "c \<noteq> 0" and "fits_int32 a" and "fits_int32 b" and "fits_int32 c"
  shows "\<exists>xs. arange a b c = Inr xs \<and>
           xs = map (\<lambda>k. a + int k * c) [0..<length xs] \<and>
           (\<forall>k. k < length xs \<longleftrightarrow> (if 0 < c then a + int k * c < b else b < a + int k * c))"
proof -
  let ?n = "nat (- ((a - b) div c))"
  have lt: "\<And>k. k < ?n \<longleftrightarrow> int k < - ((a - b) div c)"
    by linarith
  have "\<forall>k. k < ?n \<longleftrightarrow> (if 0 < c then a + int k * c < b else b < a + int k * c)"
  proof (cases "0 < c")
    case True
    then show ?thesis using arange_count_pos [of c _ a b] lt by simp
  next
    case False
    with assms have "c < 0" by simp
    then show ?thesis using arange_count_neg [of c _ a b] lt False by simp
  qed
  then show ?thesis using assms by (simp add: arange_def)
qed

lemma arange_step_one:
  assumes "fits_int32 a" and "fits_int32 b"
  shows "arange a b 1 = Inr [a..b - 1]"
proof -
  have one: "fits_int32 1" by (simp add: fits_int32_def)
  have "map (\<lambda>k. a + int k) [0..<n] = [a..a + int n - 1]" for n
  proof (induction n)
    case 0
    then show ?case by simp
  next
    case (Suc n)
    have "[a..a + int (Suc n) - 1] = [a..a + int n - 1] @ [a + int n]"
      using upto_rec2 [of a "a + int n"] by simp
    with Suc show ?case by simp
  qed
  from this [of "nat (b - a)"] show ?thesis
    using assms one by (cases "a \<le> b") (simp_all add: arange_def)
qed


lemma split_sep_char_length:
  "length (split_sep [c] 0 cur w) = count_char c w + 1"
  by (induction w arbitrary: cur) (auto simp: count_char_def)

lemma split_char_length: "length (split_char c w) = count_char c w + 1"
  by (simp add: split_char_def split_sep_char_length)

lemma signed_digits_chars:
  assumes "signed_digits w"
  shows "w \<noteq> [] \<and> (\<forall>ch\<in>set w. is_digit ch \<or> ch = CHR ''+'' \<or> ch = CHR ''-'')"
  using assms by (cases w) (auto simp: signed_digits_def Let_def list_all_iff split: if_splits)

lemma is_digit_not_colon: "is_digit ch \<Longrightarrow> ch \<noteq> CHR '':''"
  by (auto simp: is_digit_def)

lemma mxint_match_no_colon:
  assumes "mxint_match w"
  shows "CHR '':'' \<notin> set w"
proof -
  from assms consider "signed_digits w"
    | "w \<noteq> []" "last w = CHR 0x0A" "signed_digits (butlast w)"
    by (auto simp: mxint_match_def)
  then show ?thesis
  proof cases
    case 1
    from signed_digits_chars [OF this] show ?thesis
      by (auto dest: is_digit_not_colon)
  next
    case 2
    from signed_digits_chars [OF 2(3)] have nb: "CHR '':'' \<notin> set (butlast w)"
      by (auto dest: is_digit_not_colon)
    have eq: "butlast w @ [last w] = w"
      using 2(1) by (rule append_butlast_last_id)
    have "set (butlast w) \<union> {last w} = set (butlast w @ [last w])"
      by simp
    also have "\<dots> = set w"
      by (simp only: eq)
    finally have "set w = set (butlast w) \<union> {last w}"
      by simp
    with nb show ?thesis using 2(2) by auto
  qed
qed

lemma count_char_pos_mem: "1 \<le> count_char c w \<Longrightarrow> c \<in> set w"
  by (induction w) (auto simp: count_char_def split: if_splits)

lemma pad_to_three:
  assumes "length xs = 2 \<or> length xs = 3"
  shows "\<exists>p q r. xs @ replicate (3 - length xs) None = [p, q, r] \<and> q = xs ! 1"
  using assms by (auto simp: length_Suc_conv numeral_2_eq_2 numeral_3_eq_3)

lemma parse_range_no_stop:
  assumes "1 \<le> count_char CHR '':'' w" and "count_char CHR '':'' w \<le> 2"
    and "py_strip (split_char CHR '':'' w ! 1) = []"
  shows "parse_range w = Inl (ValueError (emsg0 w))"
proof -
  let ?a0 = "map py_strip (split_char CHR '':'' w)"
  let ?a1 = "map (\<lambda>x. if x \<noteq> [] then Some (py_int x) else None) ?a0"
  have len: "length ?a1 = 2 \<or> length ?a1 = 3"
    using assms(1,2) by (auto simp: split_char_length)
  then have "1 < length (split_char CHR '':'' w)"
    by auto
  then have one: "?a1 ! 1 = None"
    using assms(3) by simp
  from pad_to_three [OF len] obtain p q r
    where pad: "?a1 @ replicate (3 - length ?a1) None = [p, q, r]" and "q = ?a1 ! 1"
    by blast
  with one have q: "q = None" by simp
  show ?thesis
    unfolding parse_range_def Let_def pad q by simp
qed

lemma parse_item_no_stop:
  assumes "\<not> (w \<noteq> [] \<and> list_all is_alpha (take 1 w))" and "take 1 w \<noteq> ''@''"
    and "1 \<le> count_char CHR '':'' w" and "count_char CHR '':'' w \<le> 2"
    and "py_strip (split_char CHR '':'' w ! 1) = []"
  shows "parse_item (Name w) = Inl (ValueError (emsg0 w))"
proof -
  from count_char_pos_mem [OF assms(3)] have mem: "CHR '':'' \<in> set w" .
  then have nd: "w \<noteq> ''.''" by auto
  from mem mxint_match_no_colon have nm: "\<not> mxint_match w" by blast
  from assms(1,2) nd nm assms(3,4) parse_range_no_stop [OF assms(3-5)]
  show ?thesis by (auto simp: parse_item_def)
qed

lemma parse_items_first_error:
  assumes "parse_items pre = Inr rv" and "parse_item item = Inl e"
  shows "parse_items (pre @ item # post) = Inl e"
  using assms by (induction pre arbitrary: rv) (auto split: sum.splits)

lemma repr_char_plain:
  assumes "32 \<le> (of_char c :: nat)" and "(of_char c :: nat) < 127"
    and "c \<noteq> CHR 0x27" and "c \<noteq> CHR 0x5C"
  shows "repr_char (CHR 0x27) c = [c]"
proof -
  have "(of_char (CHR 0x09) :: nat) = 9" "(of_char (CHR 0x0A) :: nat) = 10"
    "(of_char (CHR 0x0D) :: nat) = 13"
    by simp_all
  with assms(1) have "c \<noteq> CHR 0x09" "c \<noteq> CHR 0x0A" "c \<noteq> CHR 0x0D"
    by auto
  with assms show ?thesis
    by (simp add: repr_char_def)
qed

lemma concat_singletons: "concat (map (\<lambda>c. [c]) w) = w"
  by (induction w) simp_all

lemma py_repr_plain:
  assumes "\<forall>c\<in>set w. 32 \<le> (of_char c :: nat) \<and> (of_char c :: nat) < 127 \<and>
             c \<noteq> CHR 0x27 \<and> c \<noteq> CHR 0x5C"
  shows "py_repr w = CHR 0x27 # w @ [CHR 0x27]"
proof -
  have nq: "CHR 0x27 \<notin> set w" using assms by blast
  have "\<And>c. c \<in> set w \<Longrightarrow> repr_char (CHR 0x27) c = [c]"
    using assms repr_char_plain by blast
  then have "map (repr_char (CHR 0x27)) w = map (\<lambda>c. [c]) w"
    by (intro map_cong) simp_all
  then have "concat (map (repr_char (CHR 0x27)) w) = w"
    by (simp only: concat_singletons)
  with nq show ?thesis
    by (simp add: py_repr_def Let_def)
qed

text \<open>
  C9. Let \<open>w\<close> be an item that the parser reaches as a range token (it is not a name, has
  one or two colons) and whose stop, the piece after the first colon, is empty once
  stripped, as in \<^verbatim>\<open>"2:"\<close>; let the items before it parse. Then \<^verbatim>\<open>_parsecolumnid\<close> raises
  \<^verbatim>\<open>ValueError\<close> (the error the specification calls InvalidColumnSpec) with the message
  \<^verbatim>\<open>invalid column identifier\<close> followed by \<^verbatim>\<open>repr(w)\<close>, which is \<open>w\<close> itself between single
  quotes when \<open>w\<close> has printable characters only, neither quote nor backslash.
\<close>

theorem stopless_range_rejected:
  assumes "spec_items sx = Some (pre @ Name w # post)"
    and "parse_items pre = Inr rv"
    and "\<not> (w \<noteq> [] \<and> list_all is_alpha (take 1 w))" and "take 1 w \<noteq> ''@''"
    and "1 \<le> count_char CHR '':'' w" and "count_char CHR '':'' w \<le> 2"
    and "py_strip (split_char CHR '':'' w ! 1) = []"
  shows "parsecolumnid sx = Inl (ValueError (''invalid column identifier '' @ py_repr w)) \<and>
         ((\<forall>c\<in>set w. 32 \<le> (of_char c :: nat) \<and> (of_char c :: nat) < 127 \<and>
             c \<noteq> CHR 0x27 \<and> c \<noteq> CHR 0x5C) \<longrightarrow>
          py_repr w = CHR 0x27 # w @ [CHR 0x27])"
proof -
  from parse_item_no_stop [OF assms(3-7)]
  have "parse_item (Name w) = Inl (ValueError (emsg0 w))" .
  from parse_items_first_error [OF assms(2) this]
  have "parse_items (pre @ Name w # post) = Inl (ValueError (emsg0 w))" .
  with assms(1) have "parsecolumnid sx = Inl (ValueError (emsg0 w))"
    by (simp add: parsecolumnid_def)
  with py_repr_plain [of w] show ?thesis
    by (simp add: emsg0_def)
qed

theorem stopless_range_rejected_witness:
  "parsecolumnid (SpecStr ''0, 2:'') =
     Inl (ValueError (''invalid column identifier '' @ [CHR 0x27] @ ''2:'' @ [CHR 0x27]))"
proof -
  have si: "spec_items (SpecStr ''0, 2:'') = Some ([Name ''0''] @ Name ''2:'' # [])"
    by code_simp
  have pre: "parse_items [Name ''0''] = Inr [Idx 0]"
    by code_simp
  have a: "\<not> (''2:'' \<noteq> [] \<and> list_all is_alpha (take 1 ''2:''))"
    by code_simp
  have b: "take 1 ''2:'' \<noteq> ''@''"
    by simp
  have c: "1 \<le> count_char CHR '':'' ''2:''" "count_char CHR '':'' ''2:'' \<le> 2"
    by (simp_all add: count_char_def)
  have d: "py_strip (split_char CHR '':'' ''2:'' ! 1) = []"
    by code_simp
  have p: "\<forall>c\<in>set ''2:''. 32 \<le> (of_char c :: nat) \<and> (of_char c :: nat) < 127 \<and>
             c \<noteq> CHR 0x27 \<and> c \<noteq> CHR 0x5C"
    by simp
  from stopless_range_rejected [OF si pre a b c d] p show ?thesis
    by simp
qed

lemma dropWhile_none: "(\<forall>x\<in>set xs. \<not> P x) \<Longrightarrow> dropWhile P xs = xs"
  by (cases xs) simp_all

lemma py_strip_no_space:
  assumes "\<forall>ch\<in>set x. \<not> py_isspace ch"
  shows "py_strip x = x"
proof -
  have "dropWhile py_isspace x = x"
    using assms by (rule dropWhile_none)
  moreover have "dropWhile py_isspace (rev x) = rev x"
    using assms by (intro dropWhile_none) simp
  ultimately show ?thesis by (simp add: py_strip_def)
qed

lemma is_digit_cases:
  "is_digit ch \<Longrightarrow> \<not> py_isspace ch \<and> \<not> is_alpha ch \<and> ch \<noteq> CHR ''@'' \<and> ch \<noteq> CHR '':''
     \<and> ch \<noteq> CHR '','' \<and> ch \<noteq> CHR ''.''"
  by (auto simp: is_digit_def py_isspace_def is_alpha_def)

lemma sign_cases:
  "ch = CHR ''+'' \<or> ch = CHR ''-'' \<Longrightarrow>
     \<not> py_isspace ch \<and> \<not> is_alpha ch \<and> ch \<noteq> CHR ''@'' \<and> ch \<noteq> CHR '':''
     \<and> ch \<noteq> CHR '','' \<and> ch \<noteq> CHR ''.''"
  by (auto simp: py_isspace_def is_alpha_def)

lemma signed_digits_char:
  assumes "signed_digits x" and "ch \<in> set x"
  shows "\<not> py_isspace ch \<and> \<not> is_alpha ch \<and> ch \<noteq> CHR ''@'' \<and> ch \<noteq> CHR '':''
     \<and> ch \<noteq> CHR '','' \<and> ch \<noteq> CHR ''.''"
proof -
  from signed_digits_chars [OF assms(1)] assms(2)
  have "is_digit ch \<or> (ch = CHR ''+'' \<or> ch = CHR ''-'')" by blast
  then show ?thesis using is_digit_cases [of ch] sign_cases [of ch] by blast
qed

lemma signed_digits_strip: "signed_digits x \<Longrightarrow> py_strip x = x"
  using signed_digits_char by (intro py_strip_no_space) blast

lemma signed_digits_mxint: "signed_digits x \<Longrightarrow> mxint_match x"
  by (simp add: mxint_match_def)

lemma signed_digits_nonempty: "signed_digits x \<Longrightarrow> x \<noteq> []"
  using signed_digits_chars by blast

lemma split_sep_skip_prefix:
  "c \<notin> set x \<Longrightarrow> split_sep [c] 0 cur (x @ rest) = split_sep [c] 0 (rev x @ cur) rest"
  by (induction x arbitrary: cur) auto

lemma split_char_three:
  assumes "c \<notin> set x0" and "c \<notin> set x1" and "c \<notin> set x2"
  shows "split_char c (x0 @ c # x1 @ c # x2) = [x0, x1, x2]"
proof -
  have "split_sep [c] 0 [] (x0 @ c # x1 @ c # x2) = split_sep [c] 0 (rev x0) (c # x1 @ c # x2)"
    using split_sep_skip_prefix [OF assms(1), of "[]"] by simp
  also have "\<dots> = x0 # split_sep [c] 0 [] (x1 @ c # x2)"
    by simp
  also have "split_sep [c] 0 [] (x1 @ c # x2) = split_sep [c] 0 (rev x1) (c # x2)"
    using split_sep_skip_prefix [OF assms(2), of "[]"] by simp
  also have "\<dots> = x1 # split_sep [c] 0 [] (x2 @ [])"
    by simp
  also have "split_sep [c] 0 [] (x2 @ []) = split_sep [c] 0 (rev x2) []"
    using split_sep_skip_prefix [OF assms(3), of "[]" "[]"] by simp
  finally show ?thesis by (simp add: split_char_def)
qed

lemma split_char_two:
  assumes "c \<notin> set x0" and "c \<notin> set x1"
  shows "split_char c (x0 @ c # x1) = [x0, x1]"
proof -
  have "split_sep [c] 0 [] (x0 @ c # x1) = split_sep [c] 0 (rev x0) (c # x1)"
    using split_sep_skip_prefix [OF assms(1), of "[]"] by simp
  also have "\<dots> = x0 # split_sep [c] 0 [] (x1 @ [])"
    by simp
  also have "split_sep [c] 0 [] (x1 @ []) = split_sep [c] 0 (rev x1) []"
    using split_sep_skip_prefix [OF assms(2), of "[]" "[]"] by simp
  finally show ?thesis by (simp add: split_char_def)
qed

lemma split_char_one:
  assumes "c \<notin> set x"
  shows "split_char c x = [x]"
proof -
  have "split_sep [c] 0 [] (x @ []) = split_sep [c] 0 (rev x) []"
    using split_sep_skip_prefix [OF assms, of "[]" "[]"] by simp
  then show ?thesis by (simp add: split_char_def)
qed

lemma range_token_not_name:
  assumes "signed_digits x0" and "w = x0 @ CHR '':'' # rest"
  shows "\<not> (list_all is_alpha (take 1 w) \<and> w \<noteq> [] \<or> take 1 w = ''@'' \<or> w = ''.'')"
    and "\<not> mxint_match w"
proof -
  from signed_digits_nonempty [OF assms(1)] obtain h t where x0: "x0 = h # t"
    by (cases x0) auto
  from signed_digits_char [OF assms(1), of h] x0
  have h: "\<not> is_alpha h" "h \<noteq> CHR ''@''" by simp_all
  have t1: "take 1 w = [h]" using assms(2) x0 by simp
  have "w \<noteq> ''.''" using assms(2) x0 by auto
  with h t1 show "\<not> (list_all is_alpha (take 1 w) \<and> w \<noteq> [] \<or> take 1 w = ''@'' \<or> w = ''.'')"
    by simp
  have "CHR '':'' \<in> set w" using assms(2) by simp
  with mxint_match_no_colon show "\<not> mxint_match w" by blast
qed

lemma parse_item_is_range:
  assumes "\<not> (list_all is_alpha (take 1 w) \<and> w \<noteq> [] \<or> take 1 w = ''@'' \<or> w = ''.'')"
    and "\<not> mxint_match w"
    and "1 \<le> count_char CHR '':'' w" and "count_char CHR '':'' w \<le> 2"
  shows "parse_item (Name w) = parse_range w"
  using assms by (auto simp: parse_item_def)

lemma parse_item_range3:
  assumes "signed_digits x0" and "signed_digits x1" and "signed_digits x2"
  shows "parse_item (Name (x0 @ '':'' @ x1 @ '':'' @ x2)) =
           (case arange (py_int x0) (py_int x1) (py_int x2) of
              Inl e \<Rightarrow> Inl e | Inr xs \<Rightarrow> Inr (map Idx xs))"
proof -
  let ?w = "x0 @ CHR '':'' # x1 @ CHR '':'' # x2"
  have nc: "CHR '':'' \<notin> set x0" "CHR '':'' \<notin> set x1" "CHR '':'' \<notin> set x2"
    using signed_digits_char assms by blast+
  have sp: "split_char CHR '':'' ?w = [x0, x1, x2]"
    using nc by (rule split_char_three)
  have cnt: "count_char CHR '':'' ?w = 2"
    using split_char_length [of "CHR '':''" ?w] sp by simp
  have a0: "map py_strip (split_char CHR '':'' ?w) = [x0, x1, x2]"
    using assms by (simp add: sp signed_digits_strip)
  have ne: "x0 \<noteq> []" "x1 \<noteq> []" "x2 \<noteq> []"
    using assms signed_digits_nonempty by blast+
  have mx: "mxint_match x0" "mxint_match x1" "mxint_match x2"
    using assms signed_digits_mxint by blast+
  have pr: "parse_range ?w =
           (case arange (py_int x0) (py_int x1) (py_int x2) of
              Inl e \<Rightarrow> Inl e | Inr xs \<Rightarrow> Inr (map Idx xs))"
    unfolding parse_range_def a0 Let_def using ne mx
    by (simp add: r_slice_def numeral_3_eq_3)
  have c12: "1 \<le> count_char CHR '':'' ?w" "count_char CHR '':'' ?w \<le> 2"
    unfolding cnt by simp_all
  have "parse_item (Name ?w) = parse_range ?w"
    by (rule parse_item_is_range [OF range_token_not_name [OF assms(1) refl] c12])
  with pr show ?thesis by simp
qed

lemma parse_item_range2:
  assumes "signed_digits x0" and "signed_digits x1"
  shows "parse_item (Name (x0 @ '':'' @ x1)) =
           (case arange (py_int x0) (py_int x1) 1 of
              Inl e \<Rightarrow> Inl e | Inr xs \<Rightarrow> Inr (map Idx xs))"
proof -
  let ?w = "x0 @ CHR '':'' # x1"
  have nc: "CHR '':'' \<notin> set x0" "CHR '':'' \<notin> set x1"
    using signed_digits_char assms by blast+
  have sp: "split_char CHR '':'' ?w = [x0, x1]"
    using nc by (rule split_char_two)
  have cnt: "count_char CHR '':'' ?w = 1"
    using split_char_length [of "CHR '':''" ?w] sp by simp
  have a0: "map py_strip (split_char CHR '':'' ?w) = [x0, x1]"
    using assms by (simp add: sp signed_digits_strip)
  have ne: "x0 \<noteq> []" "x1 \<noteq> []"
    using assms signed_digits_nonempty by blast+
  have mx: "mxint_match x0" "mxint_match x1"
    using assms signed_digits_mxint by blast+
  have pr: "parse_range ?w =
           (case arange (py_int x0) (py_int x1) 1 of
              Inl e \<Rightarrow> Inl e | Inr xs \<Rightarrow> Inr (map Idx xs))"
    unfolding parse_range_def a0 Let_def using ne mx
    by (simp add: r_slice_def numeral_3_eq_3)
  have c12: "1 \<le> count_char CHR '':'' ?w" "count_char CHR '':'' ?w \<le> 2"
    unfolding cnt by simp_all
  have "parse_item (Name ?w) = parse_range ?w"
    by (rule parse_item_is_range [OF range_token_not_name [OF assms(1) refl] c12])
  with pr show ?thesis by simp
qed


lemma spec_items_single:
  assumes "w \<noteq> []" and "\<forall>ch\<in>set w. \<not> py_isspace ch \<and> ch \<noteq> CHR '',''"
  shows "spec_items (SpecStr w) = Some [Name w]"
proof -
  have "split_char CHR '','' w = [w]"
    using assms(2) by (intro split_char_one) blast
  moreover have "py_strip w = w"
    using assms(2) by (intro py_strip_no_space) blast
  ultimately show ?thesis using assms(1) by (simp add: spec_items_def)
qed

lemma parsecolumnid_single:
  assumes "spec_items sx = Some [item]"
  shows "parsecolumnid sx = (case parse_item item of Inl e \<Rightarrow> Inl e | Inr ids \<Rightarrow> Inr (Some ids))"
  using assms by (simp add: parsecolumnid_def split: sum.splits)

lemma colon_plain: "\<not> py_isspace CHR '':'' \<and> CHR '':'' \<noteq> CHR '',''"
  by (simp add: py_isspace_def)

lemma range_token_items3:
  assumes "signed_digits x0" and "signed_digits x1" and "signed_digits x2"
  shows "spec_items (SpecStr (x0 @ '':'' @ x1 @ '':'' @ x2)) = Some [Name (x0 @ '':'' @ x1 @ '':'' @ x2)]"
proof (rule spec_items_single)
  show "x0 @ '':'' @ x1 @ '':'' @ x2 \<noteq> []" by simp
  show "\<forall>ch\<in>set (x0 @ '':'' @ x1 @ '':'' @ x2). \<not> py_isspace ch \<and> ch \<noteq> CHR '',''"
    using signed_digits_char [OF assms(1)] signed_digits_char [OF assms(2)]
      signed_digits_char [OF assms(3)] colon_plain
    by auto
qed

lemma range_token_items2:
  assumes "signed_digits x0" and "signed_digits x1"
  shows "spec_items (SpecStr (x0 @ '':'' @ x1)) = Some [Name (x0 @ '':'' @ x1)]"
proof (rule spec_items_single)
  show "x0 @ '':'' @ x1 \<noteq> []" by simp
  show "\<forall>ch\<in>set (x0 @ '':'' @ x1). \<not> py_isspace ch \<and> ch \<noteq> CHR '',''"
    using signed_digits_char [OF assms(1)] signed_digits_char [OF assms(2)] colon_plain
    by auto
qed

text \<open>
  C8. Parsing the string \<^verbatim>\<open>"0,2:4"\<close> gives what parsing the list \<^verbatim>\<open>[0, 2, 3]\<close> gives. In general,
  for numerals \<open>x0\<close>, \<open>x1\<close>, \<open>x2\<close> (an optional sign and digits) with values \<open>a\<close>, \<open>b\<close> and
  \<open>c \<noteq> 0\<close> that fit a signed 32-bit integer, the token \<open>x0:x1:x2\<close> expands to \<open>a, a + c, a + 2c, ...\<close>, with exactly those
  terms that lie before \<open>b\<close> in the direction of the step (below \<open>b\<close> when \<open>c > 0\<close>, above
  \<open>b\<close> when \<open>c < 0\<close>): the start is included, the stop excluded. The token \<open>x0:x1\<close> expands
  to the integers from \<open>a\<close> to \<open>b - 1\<close>. (A step of 0 raises in \<^verbatim>\<open>numpy.arange\<close>.)
\<close>

theorem range_token_expansion:
  "parsecolumnid (SpecStr ''0,2:4'') = parsecolumnid (SpecList [Idx 0, Idx 2, Idx 3]) \<and>
   (signed_digits x0 \<and> signed_digits x1 \<and> signed_digits x2 \<and>
    fits_int32 (py_int x0) \<and> fits_int32 (py_int x1) \<and> fits_int32 (py_int x2) \<and>
    py_int x2 \<noteq> 0 \<longrightarrow>
      (\<exists>xs. parsecolumnid (SpecStr (x0 @ '':'' @ x1 @ '':'' @ x2)) = Inr (Some (map Idx xs)) \<and>
         xs = map (\<lambda>k. py_int x0 + int k * py_int x2) [0..<length xs] \<and>
         (\<forall>k. k < length xs \<longleftrightarrow>
            (if 0 < py_int x2 then py_int x0 + int k * py_int x2 < py_int x1
             else py_int x1 < py_int x0 + int k * py_int x2)))) \<and>
   (signed_digits x0 \<and> signed_digits x1 \<and>
    fits_int32 (py_int x0) \<and> fits_int32 (py_int x1) \<longrightarrow>
      parsecolumnid (SpecStr (x0 @ '':'' @ x1)) = Inr (Some (map Idx [py_int x0..py_int x1 - 1])))"
proof (intro conjI impI)
  show "parsecolumnid (SpecStr ''0,2:4'') = parsecolumnid (SpecList [Idx 0, Idx 2, Idx 3])"
    by code_simp
next
  assume h: "signed_digits x0 \<and> signed_digits x1 \<and> signed_digits x2 \<and>
    fits_int32 (py_int x0) \<and> fits_int32 (py_int x1) \<and> fits_int32 (py_int x2) \<and>
    py_int x2 \<noteq> 0"
  then have sd: "signed_digits x0" "signed_digits x1" "signed_digits x2" and nz: "py_int x2 \<noteq> 0"
    and ft: "fits_int32 (py_int x0)" "fits_int32 (py_int x1)" "fits_int32 (py_int x2)"
    by simp_all
  from arange_spec [OF nz ft] obtain xs
    where ar: "arange (py_int x0) (py_int x1) (py_int x2) = Inr xs"
      and el: "xs = map (\<lambda>k. py_int x0 + int k * py_int x2) [0..<length xs]"
      and bd: "\<forall>k. k < length xs \<longleftrightarrow>
            (if 0 < py_int x2 then py_int x0 + int k * py_int x2 < py_int x1
             else py_int x1 < py_int x0 + int k * py_int x2)"
    by blast
  have "parsecolumnid (SpecStr (x0 @ '':'' @ x1 @ '':'' @ x2)) = Inr (Some (map Idx xs))"
    unfolding parsecolumnid_single [OF range_token_items3 [OF sd]] parse_item_range3 [OF sd] ar
    by simp
  with el bd show "\<exists>xs. parsecolumnid (SpecStr (x0 @ '':'' @ x1 @ '':'' @ x2)) = Inr (Some (map Idx xs)) \<and>
         xs = map (\<lambda>k. py_int x0 + int k * py_int x2) [0..<length xs] \<and>
         (\<forall>k. k < length xs \<longleftrightarrow>
            (if 0 < py_int x2 then py_int x0 + int k * py_int x2 < py_int x1
             else py_int x1 < py_int x0 + int k * py_int x2))"
    by blast
next
  assume h: "signed_digits x0 \<and> signed_digits x1 \<and>
    fits_int32 (py_int x0) \<and> fits_int32 (py_int x1)"
  then have sd: "signed_digits x0" "signed_digits x1"
    and ft: "fits_int32 (py_int x0)" "fits_int32 (py_int x1)"
    by simp_all
  show "parsecolumnid (SpecStr (x0 @ '':'' @ x1)) = Inr (Some (map Idx [py_int x0..py_int x1 - 1]))"
    unfolding parsecolumnid_single [OF range_token_items2 [OF sd]] parse_item_range2 [OF sd]
      arange_step_one [OF ft]
    by simp
qed

theorem range_token_expansion_witness:
  "parsecolumnid (SpecStr ''10:0:-3'') = Inr (Some [Idx 10, Idx 7, Idx 4, Idx 1]) \<and>
   parsecolumnid (SpecStr ''2:4'') = Inr (Some [Idx 2, Idx 3]) \<and>
   parsecolumnid (SpecStr ''0,2:4'') = parsecolumnid (SpecList [Idx 0, Idx 2, Idx 3])"
proof -
  have sd: "signed_digits ''10''" "signed_digits ''0''" "signed_digits ''-3''"
    "signed_digits ''2''" "signed_digits ''4''"
    by code_simp+
  have v: "py_int ''10'' = 10" "py_int ''0'' = 0" "py_int ''-3'' = - 3"
    "py_int ''2'' = 2" "py_int ''4'' = 4"
    by code_simp+
  have nz: "py_int ''-3'' \<noteq> 0"
    unfolding v by simp
  have ft: "fits_int32 (py_int ''10'')" "fits_int32 (py_int ''0'')" "fits_int32 (py_int ''-3'')"
    "fits_int32 (py_int ''2'')" "fits_int32 (py_int ''4'')"
    unfolding v by (simp_all add: fits_int32_def)
  note t = range_token_expansion [of "''10''" "''0''" "''-3''"]
  from t sd(1-3) ft(1-3) nz obtain xs
    where r: "parsecolumnid (SpecStr (''10'' @ '':'' @ ''0'' @ '':'' @ ''-3'')) = Inr (Some (map Idx xs))"
      and el: "xs = map (\<lambda>k. py_int ''10'' + int k * py_int ''-3'') [0..<length xs]"
      and bd: "\<forall>k. k < length xs \<longleftrightarrow>
            (if 0 < py_int ''-3'' then py_int ''10'' + int k * py_int ''-3'' < py_int ''0''
             else py_int ''0'' < py_int ''10'' + int k * py_int ''-3'')"
    by blast
  from bd have "\<forall>k. k < length xs \<longleftrightarrow> (0::int) < 10 + int k * (- 3)"
    unfolding v by simp
  then have "3 < length xs" "\<not> 4 < length xs"
    by simp_all
  then have len: "length xs = 4" by simp
  have "xs = map (\<lambda>k. 10 + int k * (- 3)) [0..<4]"
    using el unfolding v len .
  also have "\<dots> = [10, 7, 4, 1]"
    by (simp add: upt_rec)
  finally have xs: "xs = [10, 7, 4, 1]" .
  have c1: "parsecolumnid (SpecStr ''10:0:-3'') = Inr (Some [Idx 10, Idx 7, Idx 4, Idx 1])"
    using r unfolding xs by simp
  from range_token_expansion [of "''2''" "''4''"] sd(4,5) ft(4,5)
  have "parsecolumnid (SpecStr (''2'' @ '':'' @ ''4'')) = Inr (Some (map Idx [py_int ''2''..py_int ''4'' - 1]))"
    by blast
  then have c2: "parsecolumnid (SpecStr ''2:4'') = Inr (Some [Idx 2, Idx 3])"
    unfolding v by (simp add: upto.simps)
  from t have c3: "parsecolumnid (SpecStr ''0,2:4'') = parsecolumnid (SpecList [Idx 0, Idx 2, Idx 3])"
    by blast
  from c1 c2 c3 show ?thesis by blast
qed

end
